theory Spec2Isabelle
  imports Main
begin

section \<open>Data model\<close>

text \<open>
  The program (\<^verbatim>\<open>null_remover.py\<close>) works on a pandas DataFrame read from a CSV file.
  A cell is the missing sentinel \<open>NaN\<close>, a string, or a number; the numeric payload is
  left as a type parameter, since the program never computes with it.

  Every row carries a label, and the program addresses rows by label
  (\<^verbatim>\<open>.index.tolist()\<close>, \<^verbatim>\<open>df.loc[i, column]\<close>), never by position.  \<^verbatim>\<open>read_csv\<close> is called
  without \<^verbatim>\<open>index_col\<close>: when the data rows have as many fields as the header, the labels
  are \<open>0, 1, ..., n - 1\<close> (\<open>range_index\<close>); when they have one field more, the first field
  of every row becomes its label, so labels can be integers in any order and with
  repetitions, floats (among them NaN) or strings.  A float or string label is kept as
  its text; the program never gets as far as comparing two of them.  Labels of other
  kinds (booleans, the tuples of a multi-index) are not modelled.
\<close>

datatype 'n cell = NaN | Str string | Num 'n

datatype label = IntLabel int | FloatLabel string | StrLabel string

record 'n dataframe =
  df_index :: "label list"
  df_columns :: "(string \<times> 'n cell list) list"

text \<open>\<^verbatim>\<open>len(df)\<close>: the number of rows.\<close>

definition df_len :: "'n dataframe \<Rightarrow> nat" where
  "df_len df = length (df_index df)"

definition range_index :: "nat \<Rightarrow> label list" where
  "range_index n = map (\<lambda>p. IntLabel (int p)) [0 ..< n]"

definition is_int_label :: "label \<Rightarrow> bool" where
  "is_int_label l = (case l of IntLabel i \<Rightarrow> True | FloatLabel t \<Rightarrow> False | StrLabel t \<Rightarrow> False)"

definition is_float_label :: "label \<Rightarrow> bool" where
  "is_float_label l = (case l of IntLabel i \<Rightarrow> False | FloatLabel t \<Rightarrow> True | StrLabel t \<Rightarrow> False)"

definition is_str_label :: "label \<Rightarrow> bool" where
  "is_str_label l = (case l of IntLabel i \<Rightarrow> False | FloatLabel t \<Rightarrow> False | StrLabel t \<Rightarrow> True)"

text \<open>
  A dataframe as \<^verbatim>\<open>read_csv\<close> builds it: distinct column names, every column as long as
  the index, and an index of one kind of label.
\<close>

definition wf_df :: "'n dataframe \<Rightarrow> bool" where
  "wf_df df =
    (distinct (map fst (df_columns df)) \<and>
     list_all (\<lambda>c. length (snd c) = df_len df) (df_columns df) \<and>
     (list_all is_int_label (df_index df) \<or> list_all is_float_label (df_index df) \<or>
      list_all is_str_label (df_index df)))"

definition isnull :: "'n cell \<Rightarrow> bool" where
  "isnull c = (c = NaN)"

definition notna :: "'n cell \<Rightarrow> bool" where
  "notna c = (c \<noteq> NaN)"

text \<open>\<^verbatim>\<open>Series.dropna()\<close>: the non-missing values of a column, in row order.\<close>

definition dropna :: "'n cell list \<Rightarrow> 'n cell list" where
  "dropna col = filter notna col"

text \<open>
  \<^verbatim>\<open>(<boolean frame>).sum().sum()\<close>: the number of cells of the dataframe that satisfy
  a test.
\<close>

definition count_cells :: "('n cell \<Rightarrow> bool) \<Rightarrow> 'n dataframe \<Rightarrow> nat" where
  "count_cells P df = sum_list (map (\<lambda>c. length (filter P (snd c))) (df_columns df))"

text \<open>Exceptions are values; \<open>Inl\<close> of a sum is a raised exception.\<close>

datatype exn = KeyError | IndexError | TypeError | ValueError string | LibraryError string

section \<open>The random source\<close>

text \<open>
  \<^verbatim>\<open>random.choice(seq)\<close> returns \<^verbatim>\<open>seq[randbelow(len(seq))]\<close> and raises
  \<^verbatim>\<open>IndexError\<close> on an empty sequence.  The random source is the stream of its future
  draws; a draw is reduced modulo the length, so every stream is a behaviour of the
  source and every behaviour is a stream.
\<close>

type_synonym rng = "nat \<Rightarrow> nat"

definition choice :: "rng \<Rightarrow> 'a list \<Rightarrow> exn + ('a \<times> rng)" where
  "choice g seq =
    (if seq = [] then Inl IndexError
     else Inr (seq ! (g 0 mod length seq), g \<circ> Suc))"

definition zero_rng :: rng where
  "zero_rng = (\<lambda>k. 0)"

section \<open>Counting and normalising missing markers (lines 34 and 38)\<close>

definition null_count_before :: "'n dataframe \<Rightarrow> nat" where
  "null_count_before df =
    count_cells isnull df + count_cells (\<lambda>c. c = Str '''') df
      + count_cells (\<lambda>c. c = Str ''NULL'') df"

definition replace_cell :: "'n cell \<Rightarrow> 'n cell" where
  "replace_cell c =
    (if c \<in> set [Str '''', Str ''NULL'', Str ''null'', Str ''None''] then NaN else c)"

definition replace_missing :: "'n dataframe \<Rightarrow> 'n dataframe" where
  "replace_missing df =
    df\<lparr>df_columns := map (\<lambda>c. (fst c, map replace_cell (snd c))) (df_columns df)\<rparr>"

definition null_count_after :: "'n dataframe \<Rightarrow> nat" where
  "null_count_after df = count_cells isnull df + count_cells (\<lambda>c. c = Str '''') df"

text \<open>
  The specification's definition of a missing cell, in its own words: the native
  sentinel, the empty string, or one of the literals \<open>NULL\<close>, \<open>null\<close>, \<open>None\<close>.
\<close>

definition spec_missing :: "'n cell \<Rightarrow> bool" where
  "spec_missing c =
    (c = NaN \<or> c = Str '''' \<or> c = Str ''NULL'' \<or> c = Str ''null'' \<or> c = Str ''None'')"

definition spec_missing_count :: "'n dataframe \<Rightarrow> nat" where
  "spec_missing_count df = count_cells spec_missing df"

section \<open>The neighbour search (lines 46 to 60)\<close>

text \<open>
  \<^verbatim>\<open>range(start, stop, -1)\<close> and \<^verbatim>\<open>range(start, stop)\<close> over Python's integers.
\<close>

definition range_down :: "int \<Rightarrow> int \<Rightarrow> int list" where
  "range_down start stop = rev [stop + 1 .. start]"

definition range_up :: "int \<Rightarrow> int \<Rightarrow> int list" where
  "range_up start stop = [start .. stop - 1]"

text \<open>
  The cells of a column in the rows that carry the integer label \<open>i\<close>, in row order.
  \<^verbatim>\<open>df.loc[i, column]\<close> raises \<^verbatim>\<open>KeyError\<close> when there is none, is that cell when there is
  one, and is a Series when there are several.
\<close>

definition loc :: "label list \<Rightarrow> 'n cell list \<Rightarrow> int \<Rightarrow> 'n cell list" where
  "loc index col i = map snd (filter (\<lambda>r. fst r = IntLabel i) (zip index col))"

definition ambiguous :: exn where
  "ambiguous = ValueError ''The truth value of a Series is ambiguous.''"

text \<open>
  The loop of lines 51 to 54 over its range: the test \<^verbatim>\<open>i >= 0 and pd.notna(...)\<close>
  short-circuits, \<^verbatim>\<open>pd.notna\<close> of a Series is a Series, whose truth value the \<^verbatim>\<open>if\<close>
  cannot take, and the first hit is appended before \<^verbatim>\<open>break\<close>.
\<close>

fun check_above :: "label list \<Rightarrow> 'n cell list \<Rightarrow> int list \<Rightarrow> exn + 'n cell list" where
  "check_above index col [] = Inr []"
| "check_above index col (i # rest) =
    (if 0 \<le> i then
       (case loc index col i of
          [] \<Rightarrow> Inl KeyError
        | [v] \<Rightarrow> if notna v then Inr [v] else check_above index col rest
        | v # w # vs \<Rightarrow> Inl ambiguous)
     else check_above index col rest)"

text \<open>The loop of lines 57 to 60 over its range.\<close>

fun check_below :: "label list \<Rightarrow> 'n cell list \<Rightarrow> int list \<Rightarrow> exn + 'n cell list" where
  "check_below index col [] = Inr []"
| "check_below index col (i # rest) =
    (case loc index col i of
       [] \<Rightarrow> Inl KeyError
     | [v] \<Rightarrow> if notna v then Inr [v] else check_below index col rest
     | v # w # vs \<Rightarrow> Inl ambiguous)"

text \<open>
  The list \<^verbatim>\<open>adjacent_values\<close> after both loops, for the integer label \<open>idx\<close> in a
  dataframe of \<open>n\<close> rows: the bound of the second range is the number of rows.
\<close>

definition adjacent_values ::
  "nat \<Rightarrow> label list \<Rightarrow> 'n cell list \<Rightarrow> int \<Rightarrow> exn + 'n cell list" where
  "adjacent_values n index col idx =
    (case check_above index col (range_down (idx - 1) (max (- 1) (idx - 6))) of
       Inl e \<Rightarrow> Inl e
     | Inr found_above \<Rightarrow>
         (case check_below index col (range_up (idx + 1) (min (int n) (idx + 6))) of
            Inl e \<Rightarrow> Inl e
          | Inr found_below \<Rightarrow> Inr (found_above @ found_below)))"

section \<open>The column pass (lines 42 to 75)\<close>

text \<open>
  \<^verbatim>\<open>df[df[column].isnull()].index.tolist()\<close>: the labels of the rows where the column is
  missing, in row order, computed once, before the pass.
\<close>

definition null_indices :: "label list \<Rightarrow> 'n cell list \<Rightarrow> label list" where
  "null_indices index col = map fst (filter (\<lambda>r. isnull (snd r)) (zip index col))"

text \<open>
  The write \<^verbatim>\<open>df.loc[idx, column] = v\<close>: every row that carries the label gets the value.
\<close>

definition set_loc :: "label list \<Rightarrow> 'n cell list \<Rightarrow> int \<Rightarrow> 'n cell \<Rightarrow> 'n cell list" where
  "set_loc index col idx v = map (\<lambda>r. if fst r = IntLabel idx then v else snd r) (zip index col)"

text \<open>
  One iteration of the loop over \<^verbatim>\<open>null_indices\<close> (lines 46 to 71).  The state is the
  column as it stands, the counter \<^verbatim>\<open>replaced_in_column\<close>, and the random source.
  With a string label \<^verbatim>\<open>idx-1\<close> raises \<^verbatim>\<open>TypeError\<close>, and with a float label \<^verbatim>\<open>range\<close>
  does, both at line 51, before anything is read or written.
\<close>

definition fill_cell ::
  "nat \<Rightarrow> label list \<Rightarrow> label \<Rightarrow> 'n cell list \<times> nat \<times> rng \<Rightarrow>
   exn + ('n cell list \<times> nat \<times> rng)" where
  "fill_cell n index l s =
    (case s of (col, replaced_in_column, g) \<Rightarrow>
      (case l of
         FloatLabel t \<Rightarrow> Inl TypeError
       | StrLabel t \<Rightarrow> Inl TypeError
       | IntLabel idx \<Rightarrow>
          (case adjacent_values n index col idx of
             Inl e \<Rightarrow> Inl e
           | Inr adj \<Rightarrow>
               if adj \<noteq> [] then
                 (case choice g adj of
                    Inl e \<Rightarrow> Inl e
                  | Inr (v, g') \<Rightarrow> Inr (set_loc index col idx v, replaced_in_column + 1, g'))
               else
                 (let non_null_values = dropna col in
                  if non_null_values \<noteq> [] then
                    (case choice g non_null_values of
                       Inl e \<Rightarrow> Inl e
                     | Inr (v, g') \<Rightarrow>
                         Inr (set_loc index col idx v, replaced_in_column + 1, g'))
                  else Inr (col, replaced_in_column, g)))))"

fun fill_cells ::
  "nat \<Rightarrow> label list \<Rightarrow> label list \<Rightarrow> 'n cell list \<times> nat \<times> rng \<Rightarrow>
   exn + ('n cell list \<times> nat \<times> rng)" where
  "fill_cells n index [] s = Inr s"
| "fill_cells n index (l # rest) s =
    (case fill_cell n index l s of Inl e \<Rightarrow> Inl e | Inr s' \<Rightarrow> fill_cells n index rest s')"

text \<open>The body of the loop over the columns, for one column.\<close>

definition clean_column ::
  "nat \<Rightarrow> label list \<Rightarrow> 'n cell list \<Rightarrow> rng \<Rightarrow> exn + ('n cell list \<times> nat \<times> rng)" where
  "clean_column n index col g = fill_cells n index (null_indices index col) (col, 0, g)"

text \<open>
  The state of the pass over a column when the loop reaches the row at position \<open>p\<close>:
  the missing rows before it have been processed, in row order.
\<close>

definition state_before ::
  "nat \<Rightarrow> label list \<Rightarrow> 'n cell list \<Rightarrow> rng \<Rightarrow> nat \<Rightarrow> exn + ('n cell list \<times> nat \<times> rng)" where
  "state_before n index col g p =
    fill_cells n index (null_indices (take p index) (take p col)) (col, 0, g)"

text \<open>
  The loop over \<^verbatim>\<open>df.columns\<close>.  The result holds the columns as imputed, the report
  (the final value of \<^verbatim>\<open>replaced_in_column\<close> of every column; the program prints the
  positive ones), \<^verbatim>\<open>total_replaced\<close>, and the random source.  An exception ends the
  loop; the dataframe, a local variable, is then dropped by the handler of line 115.
\<close>

fun clean_columns ::
  "nat \<Rightarrow> label list \<Rightarrow> (string \<times> 'n cell list) list \<Rightarrow> nat \<Rightarrow> rng \<Rightarrow>
   exn + ((string \<times> 'n cell list) list \<times> (string \<times> nat) list \<times> nat \<times> rng)" where
  "clean_columns n index [] total_replaced g = Inr ([], [], total_replaced, g)"
| "clean_columns n index (c # rest) total_replaced g =
    (case clean_column n index (snd c) g of
       Inl e \<Rightarrow> Inl e
     | Inr (col', replaced_in_column, g') \<Rightarrow>
         (case clean_columns n index rest (total_replaced + replaced_in_column) g' of
            Inl e \<Rightarrow> Inl e
          | Inr (rest', report, total', g'') \<Rightarrow>
              Inr ((fst c, col') # rest', (fst c, replaced_in_column) # report, total', g'')))"

definition impute ::
  "'n dataframe \<Rightarrow> rng \<Rightarrow> exn + ('n dataframe \<times> (string \<times> nat) list \<times> nat \<times> rng)" where
  "impute df g =
    (case clean_columns (df_len df) (df_index df) (df_columns df) 0 g of
       Inl e \<Rightarrow> Inl e
     | Inr (cols', report, total_replaced, g') \<Rightarrow>
         Inr (df\<lparr>df_columns := cols'\<rparr>, report, total_replaced, g'))"

section \<open>The external collaborators\<close>

text \<open>
  The pandas calls that touch files or sort are not code of the program; they are taken
  as parameters, each of which may raise.  \<open>read_csv\<close> and \<open>to_csv\<close> take the path and
  the encoding; \<open>numeric_test\<close> is the condition of line 86, \<open>to_numeric\<close> the assignment
  of line 87, \<open>sort_values\<close> the calls of lines 88 and 91 (column names, ascending), and
  \<open>sort_by_arrival_date\<close> the three statements of lines 103 to 105.  Printing to the
  console is taken to succeed.
\<close>

record 'n env =
  read_csv :: "string \<Rightarrow> string \<Rightarrow> exn + 'n dataframe"
  read_excel :: "string \<Rightarrow> exn + 'n dataframe"
  read_json :: "string \<Rightarrow> exn + 'n dataframe"
  to_csv :: "'n dataframe \<Rightarrow> string \<Rightarrow> string \<Rightarrow> exn + unit"
  numeric_test :: "string \<Rightarrow> 'n dataframe \<Rightarrow> exn + bool"
  to_numeric :: "string \<Rightarrow> 'n dataframe \<Rightarrow> exn + 'n dataframe"
  sort_values :: "string list \<Rightarrow> bool \<Rightarrow> 'n dataframe \<Rightarrow> exn + 'n dataframe"
  sort_by_arrival_date :: "'n dataframe \<Rightarrow> exn + 'n dataframe"

section \<open>Sorting (lines 82 to 106)\<close>

text \<open>
  The inner \<^verbatim>\<open>try\<close> of lines 84 to 95: whatever raises inside it is caught, a warning
  is printed, and the run goes on with the dataframe as it stands at that point.
\<close>

definition sort_by_sort_column :: "'n env \<Rightarrow> string \<Rightarrow> 'n dataframe \<Rightarrow> 'n dataframe" where
  "sort_by_sort_column env sort_column df =
    (case numeric_test env sort_column df of
       Inl e \<Rightarrow> df
     | Inr numeric \<Rightarrow>
         if numeric then
           (case to_numeric env sort_column df of
              Inl e \<Rightarrow> df
            | Inr df1 \<Rightarrow>
                (case sort_values env [sort_column] False df1 of
                   Inl e \<Rightarrow> df1
                 | Inr df2 \<Rightarrow> df2))
         else
           (case sort_values env [sort_column] True df of
              Inl e \<Rightarrow> df
            | Inr df2 \<Rightarrow> df2))"

text \<open>
  The \<^verbatim>\<open>if\<close>/\<^verbatim>\<open>elif\<close> of lines 82 and 96.  \<^verbatim>\<open>sort_column\<close> is \<^verbatim>\<open>None\<close> or a string;
  it is truthy when it is a non-empty string.  The second branch is not inside the inner
  \<^verbatim>\<open>try\<close>: what it raises leaves the function body.
\<close>

definition sort_step :: "'n env \<Rightarrow> string option \<Rightarrow> 'n dataframe \<Rightarrow> exn + 'n dataframe" where
  "sort_step env sort_column df =
    (let names = map fst (df_columns df) in
     if sort_column \<noteq> None \<and> sort_column \<noteq> Some '''' \<and> the sort_column \<in> set names
     then Inr (sort_by_sort_column env (the sort_column) df)
     else if ''arrival_date_year'' \<in> set names \<and> ''arrival_date_month'' \<in> set names
     then sort_by_arrival_date env df
     else Inr df)"

section \<open>\<^verbatim>\<open>clean_csv_file\<close>\<close>

text \<open>
  What the body of the outer \<^verbatim>\<open>try\<close> (lines 26 to 113) produces when nothing raises:
  the returned triple, the count printed at line 35, and the dataframe handed to
  \<^verbatim>\<open>to_csv\<close>.  The components of the triple are natural numbers here: Python's
  \<^verbatim>\<open>int\<close> and numpy's \<^verbatim>\<open>int64\<close> (the type of the third component when the body
  succeeds) are not told apart, and the file that \<^verbatim>\<open>to_csv\<close> writes is not part of the
  returned value.
\<close>

record 'n outcome =
  returned :: "nat \<times> nat \<times> nat"
  printed_null_count_before :: nat
  written :: "'n dataframe"

definition try_body ::
  "'n env \<Rightarrow> string \<Rightarrow> string \<Rightarrow> string option \<Rightarrow> rng \<Rightarrow> exn + 'n outcome" where
  "try_body env input_file output_file sort_column g =
    (case read_csv env input_file ''latin1'' of
       Inl e \<Rightarrow> Inl e
     | Inr df0 \<Rightarrow>
         (let before = null_count_before df0;
              df1 = replace_missing df0
          in case impute df1 g of
               Inl e \<Rightarrow> Inl e
             | Inr (df2, report, total_replaced, g') \<Rightarrow>
                 (let after = null_count_after df2
                  in case sort_step env sort_column df2 of
                       Inl e \<Rightarrow> Inl e
                     | Inr df3 \<Rightarrow>
                         (case to_csv env df3 output_file ''mac-roman'' of
                            Inl e \<Rightarrow> Inl e
                          | Inr u \<Rightarrow>
                              Inr \<lparr>returned = (df_len df3, total_replaced, after),
                                   printed_null_count_before = before,
                                   written = df3\<rparr>))))"

text \<open>The handler of lines 115 to 117 turns every exception into the triple of zeros.\<close>

definition clean_csv_file ::
  "'n env \<Rightarrow> string \<Rightarrow> string \<Rightarrow> string option \<Rightarrow> rng \<Rightarrow> nat \<times> nat \<times> nat" where
  "clean_csv_file env input_file output_file sort_column g =
    (case try_body env input_file output_file sort_column g of
       Inl e \<Rightarrow> (0, 0, 0)
     | Inr r \<Rightarrow> returned r)"

section \<open>\<^verbatim>\<open>convert_to_csv\<close> (lines 119 to 140)\<close>

text \<open>
  Paths are strings of 8-bit characters.  \<^verbatim>\<open>str.rfind\<close> gives the last position of a
  character, or \<open>-1\<close>.
\<close>

definition rfind :: "string \<Rightarrow> char \<Rightarrow> int" where
  "rfind p c =
    (case find (\<lambda>i. p ! i = c) (rev [0 ..< length p]) of
       None \<Rightarrow> - 1
     | Some i \<Rightarrow> int i)"

text \<open>
  \<^verbatim>\<open>os.path.splitext\<close> of the standard library (\<^verbatim>\<open>posixpath\<close>): the extension starts
  at the last dot of the last path component, leading dots of that component apart.
\<close>

definition splitext :: "string \<Rightarrow> string \<times> string" where
  "splitext p =
    (let sepIndex = rfind p (CHR ''/'');
         dotIndex = rfind p (CHR ''.'')
     in if dotIndex > sepIndex \<and>
           list_ex (\<lambda>i. p ! i \<noteq> CHR ''.'') [nat (sepIndex + 1) ..< nat dotIndex]
        then (take (nat dotIndex) p, drop (nat dotIndex) p)
        else (p, ''''))"

text \<open>
  \<^verbatim>\<open>str.lower\<close> on the ASCII letters; no other character lowers to a letter of the
  four extensions, so the comparison of line 126 onwards is unaffected by the rest.
\<close>

definition lower_char :: "char \<Rightarrow> char" where
  "lower_char c =
    (let k = (of_char c :: nat) in if 65 \<le> k \<and> k \<le> 90 then char_of (k + 32) else c)"

definition lower :: "string \<Rightarrow> string" where
  "lower s = map lower_char s"

text \<open>\<^verbatim>\<open>s.rsplit('.', 1)[0]\<close>: the text before the last dot, or all of it.\<close>

definition rsplit_dot_head :: "string \<Rightarrow> string" where
  "rsplit_dot_head s = (let d = rfind s (CHR ''.'') in if d < 0 then s else take (nat d) s)"

text \<open>
  The converter returns the path of the CSV file or raises; the file operations it
  performs are recorded in order, so that "no load was attempted" can be stated.
\<close>

datatype io = ReadExcel string | ReadJson string | WriteCsv string

definition unsupported :: exn where
  "unsupported = ValueError ''Unsupported file type. Please provide a CSV, Excel, or JSON file.''"

definition convert_to_csv :: "'n env \<Rightarrow> string \<Rightarrow> io list \<times> (exn + string)" where
  "convert_to_csv env input_file =
    (let ext = lower (snd (splitext input_file)) in
     if ext \<in> set [''.xls'', ''.xlsx''] then
       (case read_excel env input_file of
          Inl e \<Rightarrow> ([ReadExcel input_file], Inl e)
        | Inr df \<Rightarrow>
            (let csv_file = rsplit_dot_head input_file @ ''.csv'' in
             case to_csv env df csv_file ''utf-8'' of
               Inl e \<Rightarrow> ([ReadExcel input_file, WriteCsv csv_file], Inl e)
             | Inr u \<Rightarrow> ([ReadExcel input_file, WriteCsv csv_file], Inr csv_file)))
     else if ext = ''.json'' then
       (case read_json env input_file of
          Inl e \<Rightarrow> ([ReadJson input_file], Inl e)
        | Inr df \<Rightarrow>
            (let csv_file = rsplit_dot_head input_file @ ''.csv'' in
             case to_csv env df csv_file ''utf-8'' of
               Inl e \<Rightarrow> ([ReadJson input_file, WriteCsv csv_file], Inl e)
             | Inr u \<Rightarrow> ([ReadJson input_file, WriteCsv csv_file], Inr csv_file)))
     else if ext = ''.csv'' then ([], Inr input_file)
     else ([], Inl unsupported))"

section \<open>Functional readings of the neighbour search and of one fill\<close>

text \<open>
  Readings by row position: the missing rows of a column, the value found by a scan
  over rows, and the state after one iteration on a row.  The lemmas below show that,
  on a dataframe with the default index, the loops compute exactly these and do not
  raise.
\<close>

definition null_rows :: "'n cell list \<Rightarrow> nat list" where
  "null_rows col = filter (\<lambda>p. isnull (col ! p)) [0 ..< length col]"

definition first_notna :: "'n cell list \<Rightarrow> nat list \<Rightarrow> 'n cell list" where
  "first_notna col rows =
    (case find (\<lambda>j. notna (col ! j)) rows of None \<Rightarrow> [] | Some j \<Rightarrow> [col ! j])"

definition rows_above :: "nat \<Rightarrow> nat list" where
  "rows_above idx = rev [idx - 5 ..< idx]"

definition rows_below :: "nat \<Rightarrow> nat \<Rightarrow> nat list" where
  "rows_below n idx = [Suc idx ..< min n (idx + 6)]"

definition candidates :: "nat \<Rightarrow> 'n cell list \<Rightarrow> nat \<Rightarrow> 'n cell list" where
  "candidates n col idx =
    (let adj = first_notna col (rows_above idx) @ first_notna col (rows_below n idx)
     in if adj \<noteq> [] then adj else dropna col)"

definition fill_of :: "nat \<Rightarrow> 'n cell list \<times> nat \<times> rng \<Rightarrow> nat \<Rightarrow> 'n cell list \<times> nat \<times> rng" where
  "fill_of n s idx =
    (case s of (col, k, g) \<Rightarrow>
      (let cands = candidates n col idx
       in if cands = [] then (col, k, g)
          else (col[idx := cands ! (g 0 mod length cands)], k + 1, g \<circ> Suc)))"

section \<open>Environments for concrete runs\<close>

text \<open>
  Every load returns \<open>loaded\<close>, the numeric test of the sort returns \<open>numeric\<close>, every
  write returns \<open>wrote\<close>, and the conversions and sorts that are left give back the
  dataframe unchanged.
\<close>

definition test_env :: "exn + 'n dataframe \<Rightarrow> exn + bool \<Rightarrow> exn + unit \<Rightarrow> 'n env" where
  "test_env loaded numeric wrote =
    \<lparr>read_csv = (\<lambda>path encoding. loaded),
     read_excel = (\<lambda>path. loaded),
     read_json = (\<lambda>path. loaded),
     to_csv = (\<lambda>df path encoding. wrote),
     numeric_test = (\<lambda>column df. numeric),
     to_numeric = (\<lambda>column df. Inr df),
     sort_values = (\<lambda>columns ascending df. Inr df),
     sort_by_arrival_date = (\<lambda>df. Inr df)\<rparr>"


section \<open>Dataframes with the default index\<close>

lemma filter_eq_upt: "filter (\<lambda>p. p = k) [0 ..< n] = (if k < n then [k] else [])"
  by (induction n) auto

lemma zip_range_index:
  "length col = n \<Longrightarrow>
   zip (range_index n) col = map (\<lambda>p. (IntLabel (int p), col ! p)) [0 ..< n]"
proof -
  assume len: "length col = n"
  have "col = map (\<lambda>p. col ! p) [0 ..< n]"
    using len map_nth [of col] by simp
  then have "zip (range_index n) col =
      zip (map (\<lambda>p. IntLabel (int p)) [0 ..< n]) (map (\<lambda>p. col ! p) [0 ..< n])"
    by (simp add: range_index_def)
  also have "\<dots> = map (\<lambda>p. (IntLabel (int p), col ! p)) [0 ..< n]"
    by (simp add: zip_map_map zip_same_conv_map)
  finally show ?thesis .
qed

lemma loc_range_index:
  assumes "length col = n"
  shows "loc (range_index n) col i = (if 0 \<le> i \<and> i < int n then [col ! nat i] else [])"
proof -
  have eq: "(\<lambda>p. int p = i) = (\<lambda>p. p = nat i)" if "0 \<le> i"
    using that by (auto simp: fun_eq_iff)
  have "loc (range_index n) col i = map (\<lambda>p. col ! p) (filter (\<lambda>p. int p = i) [0 ..< n])"
    by (simp add: loc_def zip_range_index [OF assms] filter_map comp_def)
  also have "\<dots> = (if 0 \<le> i \<and> i < int n then [col ! nat i] else [])"
  proof (cases "0 \<le> i")
    case True
    then show ?thesis
      by (simp add: eq [OF True] filter_eq_upt nat_less_iff)
  next
    case False
    then have "filter (\<lambda>p. int p = i) [0 ..< n] = []"
      by (auto simp: filter_empty_conv)
    then show ?thesis using False by simp
  qed
  finally show ?thesis .
qed

lemma null_indices_range_index:
  assumes "length col = n"
  shows "null_indices (range_index n) col = map (\<lambda>p. IntLabel (int p)) (null_rows col)"
  by (simp add: null_indices_def zip_range_index [OF assms] filter_map comp_def null_rows_def
      assms)

lemma set_loc_range_index:
  assumes "length col = n" and "idx < n"
  shows "set_loc (range_index n) col (int idx) v = col[idx := v]"
proof (rule nth_equalityI)
  show "length (set_loc (range_index n) col (int idx) v) = length (col[idx := v])"
    using assms by (simp add: set_loc_def range_index_def)
next
  fix p
  assume "p < length (set_loc (range_index n) col (int idx) v)"
  then have p: "p < n" using assms by (simp add: set_loc_def range_index_def)
  then show "set_loc (range_index n) col (int idx) v ! p = col[idx := v] ! p"
    using assms by (simp add: set_loc_def zip_range_index [OF assms(1)] nth_list_update)
qed

section \<open>With the default index the loops never raise and compute the functional readings\<close>

lemma check_above_rows:
  "length col = n \<Longrightarrow> \<forall>j\<in>set rows. j < n \<Longrightarrow>
   check_above (range_index n) col (map int rows) = Inr (first_notna col rows)"
  by (induction rows) (auto simp: first_notna_def loc_range_index)

lemma check_below_rows:
  "length col = n \<Longrightarrow> \<forall>j\<in>set rows. j < n \<Longrightarrow>
   check_below (range_index n) col (map int rows) = Inr (first_notna col rows)"
  by (induction rows) (auto simp: first_notna_def loc_range_index)

lemma upto_map_int: "[int a .. int b - 1] = map int [a ..< b]"
proof (induction b)
  case 0
  then show ?case by simp
next
  case (Suc b)
  show ?case
  proof (cases "a \<le> b")
    case True
    then have "[int a .. int (Suc b) - 1] = [int a .. int b - 1] @ [int b]"
      using upto_rec2 [of "int a" "int b"] by simp
    with Suc True show ?thesis by simp
  next
    case False
    then show ?thesis by simp
  qed
qed

lemma range_down_rows:
  "range_down (int idx - 1) (max (- 1) (int idx - 6)) = map int (rows_above idx)"
proof -
  have "max (- 1) (int idx - 6) + 1 = int (idx - 5)" by linarith
  then show ?thesis
    using upto_map_int [of "idx - 5" idx]
    by (simp add: range_down_def rows_above_def rev_map)
qed

lemma range_up_rows:
  "range_up (int idx + 1) (min (int n) (int idx + 6)) = map int (rows_below n idx)"
proof -
  have "min (int n) (int idx + 6) = int (min n (idx + 6))" by linarith
  moreover have "int idx + 1 = int (Suc idx)" by simp
  ultimately show ?thesis
    using upto_map_int [of "Suc idx" "min n (idx + 6)"]
    by (simp only: range_up_def rows_below_def)
qed

lemma rows_above_in_range: "idx \<le> length col \<Longrightarrow> \<forall>j\<in>set (rows_above idx). j < length col"
  by (auto simp: rows_above_def)

lemma rows_below_in_range: "n \<le> length col \<Longrightarrow> \<forall>j\<in>set (rows_below n idx). j < length col"
  by (auto simp: rows_below_def)

lemma adjacent_values_eq:
  assumes "length col = n" and "idx \<le> n"
  shows "adjacent_values n (range_index n) col (int idx) =
    Inr (first_notna col (rows_above idx) @ first_notna col (rows_below n idx))"
proof -
  have a: "\<forall>j\<in>set (rows_above idx). j < n"
    using assms rows_above_in_range [of idx col] by simp
  have b: "\<forall>j\<in>set (rows_below n idx). j < n"
    using assms rows_below_in_range [of n col idx] by simp
  show ?thesis
    unfolding adjacent_values_def range_down_rows range_up_rows
    by (simp add: check_above_rows [OF assms(1) a] check_below_rows [OF assms(1) b])
qed

lemma fill_cell_eq:
  assumes "length col = n" and "idx < n"
  shows "fill_cell n (range_index n) (IntLabel (int idx)) (col, k, g) =
    Inr (fill_of n (col, k, g) idx)"
proof -
  have le: "idx \<le> n" using assms(2) by simp
  show ?thesis
    by (simp add: fill_cell_def fill_of_def candidates_def
        adjacent_values_eq [OF assms(1) le] choice_def Let_def
        set_loc_range_index [OF assms])
qed

lemma length_fill_of: "length (fst (fill_of n s idx)) = length (fst s)"
  by (cases s) (simp add: fill_of_def Let_def)

lemma length_foldl_fill_of: "length (fst (foldl (fill_of n) s is)) = length (fst s)"
  by (induction "is" arbitrary: s) (simp_all add: length_fill_of)

lemma fill_cells_eq:
  "\<forall>i\<in>set is. i < n \<Longrightarrow> length (fst s) = n \<Longrightarrow>
   fill_cells n (range_index n) (map (\<lambda>p. IntLabel (int p)) is) s =
     Inr (foldl (fill_of n) s is)"
proof (induction "is" arbitrary: s)
  case Nil
  then show ?case by simp
next
  case (Cons i "is")
  obtain col k g where s: "s = (col, k, g)" by (cases s)
  have step: "fill_cell n (range_index n) (IntLabel (int i)) s = Inr (fill_of n s i)"
    using Cons.prems s fill_cell_eq [of col n i k g] by simp
  have "fill_cells n (range_index n) (map (\<lambda>p. IntLabel (int p)) is) (fill_of n s i) =
      Inr (foldl (fill_of n) (fill_of n s i) is)"
    using Cons.prems by (intro Cons.IH) (simp_all add: length_fill_of)
  with step show ?case by simp
qed

section \<open>Facts about one fill and about a pass\<close>


lemma first_notna_notna: "c \<in> set (first_notna col rows) \<Longrightarrow> notna c"
proof (cases "find (\<lambda>j. notna (col ! j)) rows")
  case None
  then show "c \<in> set (first_notna col rows) \<Longrightarrow> notna c"
    by (simp add: first_notna_def)
next
  case (Some j)
  then have "notna (col ! j)" by (auto simp: find_Some_iff)
  with Some show "c \<in> set (first_notna col rows) \<Longrightarrow> notna c"
    by (simp add: first_notna_def)
qed

lemma candidates_notna: "c \<in> set (candidates n col idx) \<Longrightarrow> notna c"
  by (auto simp: candidates_def Let_def dropna_def dest: first_notna_notna split: if_splits)

lemma first_notna_all_missing:
  "\<forall>j\<in>set rows. col ! j = NaN \<Longrightarrow> first_notna col rows = []"
  by (auto simp: first_notna_def notna_def find_None_iff split: option.splits)

lemma dropna_empty_iff: "dropna col = [] \<longleftrightarrow> (\<forall>i<length col. col ! i = NaN)"
  by (simp add: dropna_def notna_def filter_empty_conv all_set_conv_all_nth)

lemma pick_notna:
  "candidates n col idx \<noteq> [] \<Longrightarrow>
   notna (candidates n col idx ! (m mod length (candidates n col idx)))"
  by (rule candidates_notna, rule nth_mem) simp

lemma candidates_empty:
  assumes "dropna col = []" and "idx \<le> length col" and "n \<le> length col"
  shows "candidates n col idx = []"
proof -
  have "\<forall>j\<in>set (rows_above idx). col ! j = NaN"
    using assms(1) rows_above_in_range [OF assms(2)] by (simp add: dropna_empty_iff)
  moreover have "\<forall>j\<in>set (rows_below n idx). col ! j = NaN"
    using assms(1) rows_below_in_range [OF assms(3)] by (simp add: dropna_empty_iff)
  ultimately show ?thesis
    using assms(1) by (simp add: candidates_def first_notna_all_missing)
qed

lemma candidates_nonempty: "dropna col \<noteq> [] \<Longrightarrow> candidates n col idx \<noteq> []"
  by (simp add: candidates_def Let_def)

lemma fill_of_other: "j \<noteq> idx \<Longrightarrow> fst (fill_of n s idx) ! j = fst s ! j"
  by (cases s) (simp add: fill_of_def Let_def)

lemma fill_of_notna:
  assumes "notna (fst s ! j)"
  shows "notna (fst (fill_of n s idx) ! j)"
proof (cases s)
  case (fields col k g)
  show ?thesis
  proof (cases "j = idx \<and> idx < length col \<and> candidates n col idx \<noteq> []")
    case True
    then show ?thesis
      using fields by (simp add: fill_of_def Let_def pick_notna)
  next
    case False
    then show ?thesis
      using assms fields
      by (cases "idx < length col") (auto simp: fill_of_def Let_def list_update_beyond)
  qed
qed

lemma fill_of_filled:
  assumes "dropna col \<noteq> []" and "idx < length col"
  shows "notna (fst (fill_of n (col, k, g) idx) ! idx)"
proof -
  have ne: "candidates n col idx \<noteq> []"
    using assms(1) by (rule candidates_nonempty)
  then show ?thesis
    using assms(2) by (simp add: fill_of_def Let_def pick_notna)
qed

lemma fill_of_all_missing:
  "dropna col = [] \<Longrightarrow> idx \<le> length col \<Longrightarrow> n \<le> length col \<Longrightarrow>
   fill_of n (col, k, g) idx = (col, k, g)"
  by (simp add: fill_of_def candidates_empty)

lemma dropna_nonempty_iff: "dropna col \<noteq> [] \<longleftrightarrow> (\<exists>i<length col. notna (col ! i))"
  by (auto simp: dropna_empty_iff notna_def)

lemma fill_of_keeps_some:
  assumes "dropna (fst s) \<noteq> []"
  shows "dropna (fst (fill_of n s idx)) \<noteq> []"
proof -
  obtain i where "i < length (fst s)" and "notna (fst s ! i)"
    using assms by (auto simp: dropna_nonempty_iff)
  then have "i < length (fst (fill_of n s idx)) \<and> notna (fst (fill_of n s idx) ! i)"
    by (simp add: length_fill_of fill_of_notna)
  then show ?thesis
    unfolding dropna_nonempty_iff by blast
qed

lemma foldl_fill_of_other:
  "j \<notin> set is \<Longrightarrow> fst (foldl (fill_of n) s is) ! j = fst s ! j"
  by (induction "is" arbitrary: s) (auto simp: fill_of_other)

lemma foldl_fill_of_notna:
  "notna (fst s ! j) \<Longrightarrow> notna (fst (foldl (fill_of n) s is) ! j)"
  by (induction "is" arbitrary: s) (auto simp: fill_of_notna)

lemma foldl_fill_of_filled:
  "dropna (fst s) \<noteq> [] \<Longrightarrow> \<forall>i\<in>set is. i < length (fst s) \<Longrightarrow> i \<in> set is \<Longrightarrow>
   notna (fst (foldl (fill_of n) s is) ! i)"
proof (induction "is" arbitrary: s)
  case Nil
  then show ?case by simp
next
  case (Cons a "is")
  obtain col k g where s: "s = (col, k, g)" by (cases s)
  have keep: "dropna (fst (fill_of n s a)) \<noteq> []"
    using Cons.prems(1) by (rule fill_of_keeps_some)
  have rng: "\<forall>i\<in>set is. i < length (fst (fill_of n s a))"
    using Cons.prems(2) by (simp add: length_fill_of)
  show ?case
  proof (cases "i = a")
    case True
    have "notna (fst (fill_of n s a) ! a)"
      using Cons.prems(1,2) s fill_of_filled [of col a n k g] by simp
    then show ?thesis
      using True by (simp add: foldl_fill_of_notna)
  next
    case False
    then have "i \<in> set is" using Cons.prems(3) by simp
    then show ?thesis
      using Cons.IH [OF keep rng] by simp
  qed
qed

lemma foldl_fill_of_all_missing:
  "dropna (fst s) = [] \<Longrightarrow> \<forall>i\<in>set is. i \<le> length (fst s) \<Longrightarrow> n \<le> length (fst s) \<Longrightarrow>
   foldl (fill_of n) s is = s"
proof (induction "is" arbitrary: s)
  case Nil
  then show ?case by simp
next
  case (Cons a "is")
  obtain col k g where s: "s = (col, k, g)" by (cases s)
  have "fill_of n s a = s"
    using Cons.prems s fill_of_all_missing [of col a n k g] by simp
  then show ?case
    using Cons by simp
qed

section \<open>The pass over one column and over all columns, with the default index\<close>

lemma null_rows_iff: "i \<in> set (null_rows col) \<longleftrightarrow> i < length col \<and> col ! i = NaN"
  by (auto simp: null_rows_def isnull_def)

lemma clean_column_eq:
  assumes "length col = n"
  shows "clean_column n (range_index n) col g =
    Inr (foldl (fill_of n) (col, 0, g) (null_rows col))"
  unfolding clean_column_def null_indices_range_index [OF assms]
  using assms by (intro fill_cells_eq) (auto simp: null_rows_iff)

lemma no_missing_iff: "filter isnull col = [] \<longleftrightarrow> (\<forall>i<length col. notna (col ! i))"
  by (simp add: isnull_def notna_def filter_empty_conv all_set_conv_all_nth)

lemma clean_column_complete:
  assumes "length col = n" and "dropna col \<noteq> []"
  shows "\<exists>col' k g'. clean_column n (range_index n) col g = Inr (col', k, g') \<and> filter isnull col' = []"
proof -
  define r where "r = foldl (fill_of n) (col, 0, g) (null_rows col)"
  have len: "length (fst r) = length col"
    by (simp add: r_def length_foldl_fill_of)
  have "notna (fst r ! i)" if "i < length col" for i
  proof (cases "col ! i = NaN")
    case True
    then have "i \<in> set (null_rows col)"
      using that by (simp add: null_rows_iff)
    then show ?thesis
      unfolding r_def using assms(2)
      by (intro foldl_fill_of_filled) (auto simp: null_rows_iff)
  next
    case False
    then show ?thesis
      unfolding r_def by (intro foldl_fill_of_notna) (simp add: notna_def)
  qed
  then have "filter isnull (fst r) = []"
    using len by (simp add: no_missing_iff)
  moreover have "clean_column n (range_index n) col g = Inr (fst r, fst (snd r), snd (snd r))"
    using clean_column_eq [OF assms(1)] by (simp add: r_def)
  ultimately show ?thesis by blast
qed

lemma clean_column_all_missing:
  assumes "length col = n" and "dropna col = []"
  shows "clean_column n (range_index n) col g = Inr (col, 0, g)"
proof -
  have "foldl (fill_of n) (col, 0, g) (null_rows col) = (col, 0, g)"
    using assms by (intro foldl_fill_of_all_missing) (auto simp: null_rows_iff)
  then show ?thesis
    using clean_column_eq [OF assms(1)] by simp
qed

lemma clean_column_keeps:
  assumes "length col = n"
  shows "\<exists>col' k g'. clean_column n (range_index n) col g = Inr (col', k, g') \<and> length col' = n \<and>
    (\<forall>i. notna (col ! i) \<longrightarrow> col' ! i = col ! i)"
proof -
  define r where "r = foldl (fill_of n) (col, 0, g) (null_rows col)"
  have len: "length (fst r) = n"
    using assms by (simp add: r_def length_foldl_fill_of)
  have "fst r ! i = col ! i" if "notna (col ! i)" for i
  proof -
    have "i \<notin> set (null_rows col)"
      using that by (simp add: null_rows_iff notna_def)
    then show ?thesis
      unfolding r_def by (simp add: foldl_fill_of_other)
  qed
  moreover have "clean_column n (range_index n) col g = Inr (fst r, fst (snd r), snd (snd r))"
    using clean_column_eq [OF assms] by (simp add: r_def)
  ultimately show ?thesis using len by blast
qed

lemma clean_columns_result:
  assumes "list_all (\<lambda>c. length (snd c) = n) cols"
  shows "\<exists>cols' report t1 g'.
    clean_columns n (range_index n) cols t0 g = Inr (cols', report, t1, g') \<and>
    map fst cols' = map fst cols \<and> map fst report = map fst cols \<and>
    t1 = t0 + sum_list (map snd report) \<and>
    (\<forall>k<length cols. \<exists>gk gk'.
        clean_column n (range_index n) (snd (cols ! k)) gk = Inr (snd (cols' ! k), snd (report ! k), gk'))"
  using assms
proof (induction cols arbitrary: t0 g)
  case Nil
  then show ?case by simp
next
  case (Cons c cols)
  from Cons.prems have lc: "length (snd c) = n" and rest: "list_all (\<lambda>c. length (snd c) = n) cols"
    by simp_all
  obtain col' k g1 where cc: "clean_column n (range_index n) (snd c) g = Inr (col', k, g1)"
    using clean_column_keeps [OF lc] by blast
  obtain cols' report t1 g' where
    run: "clean_columns n (range_index n) cols (t0 + k) g1 = Inr (cols', report, t1, g')" and
    names: "map fst cols' = map fst cols" "map fst report = map fst cols" and
    sum: "t1 = t0 + k + sum_list (map snd report)" and
    each: "\<forall>j<length cols. \<exists>gk gk'.
        clean_column n (range_index n) (snd (cols ! j)) gk = Inr (snd (cols' ! j), snd (report ! j), gk')"
    using Cons.IH [OF rest, of "t0 + k" g1] by blast
  have "\<exists>gk gk'. clean_column n (range_index n) (snd ((c # cols) ! j)) gk =
      Inr (snd (((fst c, col') # cols') ! j), snd (((fst c, k) # report) ! j), gk')"
    if "j < length (c # cols)" for j
  proof (cases j)
    case 0
    then show ?thesis using cc by auto
  next
    case (Suc m)
    then show ?thesis using each that by simp
  qed
  then show ?case
    using cc run names sum by simp
qed

section \<open>Missing markers: normalisation and the count before imputation\<close>

lemma replace_cell_idem: "replace_cell (replace_cell c) = replace_cell c"
  by (simp add: replace_cell_def)

text \<open>
  C6.  Normalising the missing markers twice gives the same dataframe as normalising
  them once: the four spellings become the sentinel, and the sentinel stays as it is.
\<close>

theorem replace_missing_idempotent:
  "replace_missing (replace_missing df) = replace_missing df"
  by (simp add: replace_missing_def replace_cell_idem comp_def)

lemma spec_missing_replace: "isnull (replace_cell c) \<longleftrightarrow> spec_missing c"
  by (auto simp: isnull_def replace_cell_def spec_missing_def)

lemma length_filter_spec_missing:
  "length (filter spec_missing col) =
    length (filter isnull col) + length (filter (\<lambda>c. c = Str '''') col)
    + length (filter (\<lambda>c. c = Str ''NULL'') col)
    + length (filter (\<lambda>c. c = Str ''null'') col)
    + length (filter (\<lambda>c. c = Str ''None'') col)"
  by (induction col) (auto simp: spec_missing_def isnull_def)

lemma spec_missing_count_eq:
  "spec_missing_count df =
    null_count_before df + count_cells (\<lambda>c. c = Str ''null'') df
      + count_cells (\<lambda>c. c = Str ''None'') df"
  unfolding spec_missing_count_def null_count_before_def count_cells_def
  by (simp add: length_filter_spec_missing sum_list_addf)

text \<open>
  C7.  On the dataframe with the single column \<open>a\<close> and the cells \<open>None\<close>, \<open>x\<close>, the
  count of line 34 is 0, while one cell is missing under the four-form definition; the
  normalisation of line 38 turns that cell into the sentinel and the pass replaces it.
\<close>

theorem null_count_before_misses_None:
  "null_count_before \<lparr>df_index = [IntLabel 0, IntLabel 1], df_columns = [(''a'', [Str ''None'', Str ''x''])]\<rparr> = 0 \<and>
   spec_missing_count
     (\<lparr>df_index = [IntLabel 0, IntLabel 1], df_columns = [(''a'', [Str ''None'', Str ''x''])]\<rparr> :: int dataframe) = 1 \<and>
   count_cells isnull
     (replace_missing
       (\<lparr>df_index = [IntLabel 0, IntLabel 1], df_columns = [(''a'', [Str ''None'', Str ''x''])]\<rparr> :: int dataframe)) = 1"
  by (simp add: null_count_before_def spec_missing_count_def count_cells_def isnull_def
      spec_missing_def replace_missing_def replace_cell_def)

section \<open>Concrete environments\<close>

lemma test_env_simps:
  "read_csv (test_env l n w) p enc = l"
  "read_excel (test_env l n w) p = l"
  "read_json (test_env l n w) p = l"
  "to_csv (test_env l n w) d p enc = w"
  "numeric_test (test_env l n w) c d = n"
  "to_numeric (test_env l n w) c d = Inr d"
  "sort_values (test_env l n w) cs asc d = Inr d"
  "sort_by_arrival_date (test_env l n w) d = Inr d"
  by (simp_all add: test_env_def)

section \<open>The format converter\<close>

lemma rsplit_dot_head_splitext:
  "snd (splitext p) \<noteq> [] \<Longrightarrow> rsplit_dot_head p = fst (splitext p)"
  by (auto simp: splitext_def rsplit_dot_head_def Let_def rfind_def
      split: if_splits option.splits)


lemma lower_nonempty: "lower s \<noteq> [] \<Longrightarrow> s \<noteq> []"
  by (simp add: lower_def)

lemma csv_path:
  assumes "lower (snd (splitext p)) \<in> set [''.xls'', ''.xlsx'', ''.json'']"
  shows "rsplit_dot_head p @ ''.csv'' = fst (splitext p) @ ''.csv''"
proof -
  have "lower (snd (splitext p)) \<noteq> []" using assms by auto
  then have "snd (splitext p) \<noteq> []" by (rule lower_nonempty)
  then show ?thesis by (simp add: rsplit_dot_head_splitext)
qed

text \<open>
  C9 (amended).  With the extension taken by \<^verbatim>\<open>os.path.splitext\<close> and lower-cased: the
  converter raises the unsupported-file-type error, having performed no file operation,
  exactly when the extension is none of \<open>.csv\<close>, \<open>.xls\<close>, \<open>.xlsx\<close>, \<open>.json\<close>.  For
  \<open>.csv\<close> it returns the input path.  For the other three it loads the file and writes
  the CSV: when both succeed it returns the path with the extension replaced by \<open>.csv\<close>,
  and when the load raises, the converter raises that error.
\<close>

theorem convert_to_csv_cases:
  "(convert_to_csv env p = ([], Inl unsupported) \<longleftrightarrow>
      lower (snd (splitext p)) \<notin> set [''.csv'', ''.xls'', ''.xlsx'', ''.json'']) \<and>
   (lower (snd (splitext p)) = ''.csv'' \<longrightarrow> convert_to_csv env p = ([], Inr p)) \<and>
   (lower (snd (splitext p)) \<in> set [''.xls'', ''.xlsx''] \<and> read_excel env p = Inr df \<and>
    to_csv env df (fst (splitext p) @ ''.csv'') ''utf-8'' = Inr () \<longrightarrow>
      convert_to_csv env p =
        ([ReadExcel p, WriteCsv (fst (splitext p) @ ''.csv'')],
         Inr (fst (splitext p) @ ''.csv''))) \<and>
   (lower (snd (splitext p)) = ''.json'' \<and> read_json env p = Inr df \<and>
    to_csv env df (fst (splitext p) @ ''.csv'') ''utf-8'' = Inr () \<longrightarrow>
      convert_to_csv env p =
        ([ReadJson p, WriteCsv (fst (splitext p) @ ''.csv'')],
         Inr (fst (splitext p) @ ''.csv''))) \<and>
   (lower (snd (splitext p)) \<in> set [''.xls'', ''.xlsx''] \<and> read_excel env p = Inl e \<longrightarrow>
      convert_to_csv env p = ([ReadExcel p], Inl e)) \<and>
   (lower (snd (splitext p)) = ''.json'' \<and> read_json env p = Inl e \<longrightarrow>
      convert_to_csv env p = ([ReadJson p], Inl e))"
proof -
  define ext where "ext = lower (snd (splitext p))"
  have path: "ext \<in> set [''.xls'', ''.xlsx'', ''.json''] \<Longrightarrow>
      rsplit_dot_head p @ ''.csv'' = fst (splitext p) @ ''.csv''"
    unfolding ext_def by (rule csv_path)
  have conv: "convert_to_csv env p =
    (if ext \<in> set [''.xls'', ''.xlsx''] then
       (case read_excel env p of
          Inl e \<Rightarrow> ([ReadExcel p], Inl e)
        | Inr df \<Rightarrow>
            (case to_csv env df (rsplit_dot_head p @ ''.csv'') ''utf-8'' of
               Inl e \<Rightarrow> ([ReadExcel p, WriteCsv (rsplit_dot_head p @ ''.csv'')], Inl e)
             | Inr u \<Rightarrow> ([ReadExcel p, WriteCsv (rsplit_dot_head p @ ''.csv'')],
                          Inr (rsplit_dot_head p @ ''.csv''))))
     else if ext = ''.json'' then
       (case read_json env p of
          Inl e \<Rightarrow> ([ReadJson p], Inl e)
        | Inr df \<Rightarrow>
            (case to_csv env df (rsplit_dot_head p @ ''.csv'') ''utf-8'' of
               Inl e \<Rightarrow> ([ReadJson p, WriteCsv (rsplit_dot_head p @ ''.csv'')], Inl e)
             | Inr u \<Rightarrow> ([ReadJson p, WriteCsv (rsplit_dot_head p @ ''.csv'')],
                          Inr (rsplit_dot_head p @ ''.csv''))))
     else if ext = ''.csv'' then ([], Inr p)
     else ([], Inl unsupported))"
    by (simp only: convert_to_csv_def ext_def Let_def)
  have a: "convert_to_csv env p = ([], Inl unsupported) \<longleftrightarrow>
      ext \<notin> set [''.csv'', ''.xls'', ''.xlsx'', ''.json'']"
    unfolding conv by (auto split: sum.splits)
  have b: "ext = ''.csv'' \<longrightarrow> convert_to_csv env p = ([], Inr p)"
    unfolding conv by simp
  have c: "ext \<in> set [''.xls'', ''.xlsx''] \<and> read_excel env p = Inr df \<and>
    to_csv env df (fst (splitext p) @ ''.csv'') ''utf-8'' = Inr () \<longrightarrow>
      convert_to_csv env p =
        ([ReadExcel p, WriteCsv (fst (splitext p) @ ''.csv'')],
         Inr (fst (splitext p) @ ''.csv''))"
    unfolding conv using path by auto
  have d: "ext = ''.json'' \<and> read_json env p = Inr df \<and>
    to_csv env df (fst (splitext p) @ ''.csv'') ''utf-8'' = Inr () \<longrightarrow>
      convert_to_csv env p =
        ([ReadJson p, WriteCsv (fst (splitext p) @ ''.csv'')],
         Inr (fst (splitext p) @ ''.csv''))"
    unfolding conv using path by auto
  have e1: "ext \<in> set [''.xls'', ''.xlsx''] \<and> read_excel env p = Inl e \<longrightarrow>
      convert_to_csv env p = ([ReadExcel p], Inl e)"
    unfolding conv by auto
  have e2: "ext = ''.json'' \<and> read_json env p = Inl e \<longrightarrow>
      convert_to_csv env p = ([ReadJson p], Inl e)"
    unfolding conv by auto
  show ?thesis
    using a b c d e1 e2 unfolding ext_def by (simp only: simp_thms)
qed


lemma splitext_examples:
  "splitext ''data.xls'' = (''data'', ''.xls'')"
  "splitext ''dir.v2/data.JSON'' = (''dir.v2/data'', ''.JSON'')"
  "splitext ''notes.txt'' = (''notes'', ''.txt'')"
  by code_simp+

lemma lower_examples:
  "lower ''.xls'' = ''.xls''" "lower ''.JSON'' = ''.json''" "lower ''.txt'' = ''.txt''"
  by code_simp+

theorem convert_to_csv_load_failure_counterexample:
  "lower (snd (splitext ''data.xls'')) = ''.xls'' \<and>
   convert_to_csv
     (test_env (Inl (LibraryError ''BadZipFile'')) (Inr False) (Inr ()) :: int env)
     ''data.xls'' = ([ReadExcel ''data.xls''], Inl (LibraryError ''BadZipFile''))"
  by (simp add: convert_to_csv_def splitext_examples lower_examples test_env_simps)

theorem convert_to_csv_cases_witness:
  "convert_to_csv
     (test_env (Inr \<lparr>df_index = [], df_columns = []\<rparr>) (Inr False) (Inr ()) :: int env)
     ''dir.v2/data.JSON'' =
     ([ReadJson ''dir.v2/data.JSON'', WriteCsv ''dir.v2/data.csv''], Inr ''dir.v2/data.csv'') \<and>
   convert_to_csv
     (test_env (Inr \<lparr>df_index = [], df_columns = []\<rparr>) (Inr False) (Inr ()) :: int env)
     ''notes.txt'' = ([], Inl unsupported)"
proof -
  let ?env = "test_env (Inr \<lparr>df_index = [], df_columns = []\<rparr>) (Inr False) (Inr ()) :: int env"
  have a: "convert_to_csv ?env ''dir.v2/data.JSON'' =
     ([ReadJson ''dir.v2/data.JSON'', WriteCsv ''dir.v2/data.csv''], Inr ''dir.v2/data.csv'')"
    using convert_to_csv_cases [of ?env "''dir.v2/data.JSON''" "\<lparr>df_index = [], df_columns = []\<rparr>"]
    by (simp add: splitext_examples lower_examples test_env_simps)
  have b: "convert_to_csv ?env ''notes.txt'' = ([], Inl unsupported)"
    using convert_to_csv_cases [of ?env "''notes.txt''"]
    by (simp add: splitext_examples lower_examples)
  show ?thesis using a b by simp
qed

section \<open>Facts that hold with every index\<close>

lemma length_set_loc:
  "length index = length col \<Longrightarrow> length (set_loc index col i v) = length col"
  by (simp add: set_loc_def)

lemma fill_cell_int:
  "fill_cell n index (IntLabel i) (col, k, g) =
    (case adjacent_values n index col i of
       Inl e \<Rightarrow> Inl e
     | Inr adj \<Rightarrow>
         (let cands = (if adj \<noteq> [] then adj else dropna col) in
          if cands = [] then Inr (col, k, g)
          else Inr (set_loc index col i (cands ! (g 0 mod length cands)), k + 1, g \<circ> Suc)))"
  by (simp add: fill_cell_def choice_def Let_def split: sum.splits)

lemma fill_cell_not_int:
  "fill_cell n index (FloatLabel t) s = Inl TypeError"
  "fill_cell n index (StrLabel t) s = Inl TypeError"
  by (simp_all add: fill_cell_def split: prod.splits)

lemma fill_cell_length:
  assumes "fill_cell n index l (col, k, g) = Inr (col', k', g')"
    and "length index = length col"
  shows "length col' = length col"
proof (cases l)
  case (IntLabel i)
  then show ?thesis
    using assms
    by (auto simp: fill_cell_int Let_def length_set_loc split: sum.splits if_splits)
next
  case (FloatLabel t)
  then show ?thesis using assms(1) by (simp add: fill_cell_not_int)
next
  case (StrLabel t)
  then show ?thesis using assms(1) by (simp add: fill_cell_not_int)
qed

lemma fill_cells_length:
  "fill_cells n index ls s = Inr s' \<Longrightarrow> length index = length (fst s) \<Longrightarrow>
   length (fst s') = length (fst s)"
proof (induction ls arbitrary: s)
  case Nil
  then show ?case by simp
next
  case (Cons l ls)
  obtain col k g where s: "s = (col, k, g)" by (cases s)
  from Cons.prems(1) obtain s1 where
    one: "fill_cell n index l s = Inr s1" and rest: "fill_cells n index ls s1 = Inr s'"
    by (auto split: sum.splits)
  obtain col1 k1 g1 where s1: "s1 = (col1, k1, g1)" by (cases s1)
  have l1: "length col1 = length col"
    using fill_cell_length [of n index l col k g col1 k1 g1] one Cons.prems(2) s s1 by simp
  then have "length (fst s') = length (fst s1)"
    using Cons.IH [OF rest] Cons.prems(2) s s1 by simp
  then show ?case using l1 s s1 by simp
qed

lemma clean_column_length:
  "clean_column n index col g = Inr (col', k, g') \<Longrightarrow> length index = length col \<Longrightarrow>
   length col' = length col"
  unfolding clean_column_def using fill_cells_length [of n index _ "(col, 0, g)" "(col', k, g')"]
  by simp

lemma clean_columns_shape:
  "clean_columns n index cols t0 g = Inr (cols', report, t1, g') \<Longrightarrow>
   list_all (\<lambda>c. length (snd c) = length index) cols \<Longrightarrow>
   map fst cols' = map fst cols \<and> list_all (\<lambda>c. length (snd c) = length index) cols'"
proof (induction cols arbitrary: t0 g cols' report)
  case Nil
  then show ?case by simp
next
  case (Cons c cols)
  from Cons.prems(1) obtain col' k g1 rest' rep where
    one: "clean_column n index (snd c) g = Inr (col', k, g1)" and
    more: "clean_columns n index cols (t0 + k) g1 = Inr (rest', rep, t1, g')" and
    res: "cols' = (fst c, col') # rest'"
    by (auto split: sum.splits prod.splits)
  have "length col' = length index"
    using clean_column_length [OF one] Cons.prems(2) by simp
  moreover have "map fst rest' = map fst cols \<and>
      list_all (\<lambda>c. length (snd c) = length index) rest'"
    using Cons.IH [OF more] Cons.prems(2) by simp
  ultimately show ?case using res by simp
qed

lemma impute_shape:
  assumes "impute df g = Inr (df', report, t1, g')" and "wf_df df"
  shows "wf_df df' \<and> df_index df' = df_index df \<and>
    map fst (df_columns df') = map fst (df_columns df)"
proof -
  from assms(1) obtain cols' where
    run: "clean_columns (df_len df) (df_index df) (df_columns df) 0 g =
      Inr (cols', report, t1, g')" and
    res: "df' = df\<lparr>df_columns := cols'\<rparr>"
    by (auto simp: impute_def split: sum.splits prod.splits)
  have "list_all (\<lambda>c. length (snd c) = length (df_index df)) (df_columns df)"
    using assms(2) by (simp add: wf_df_def df_len_def)
  from clean_columns_shape [OF run this] show ?thesis
    using assms(2) res by (simp add: wf_df_def df_len_def)
qed

lemma length_range_index: "length (range_index n) = n"
  by (simp add: range_index_def)

lemma impute_result:
  assumes "wf_df df" and "df_index df = range_index (df_len df)"
  shows "\<exists>cols' report t1 g'.
    impute df g = Inr (df\<lparr>df_columns := cols'\<rparr>, report, t1, g') \<and>
    map fst cols' = map fst (df_columns df) \<and> map fst report = map fst (df_columns df) \<and>
    t1 = sum_list (map snd report) \<and>
    (\<forall>k<length (df_columns df). \<exists>gk gk'.
        clean_column (df_len df) (df_index df) (snd (df_columns df ! k)) gk =
          Inr (snd (cols' ! k), snd (report ! k), gk'))"
proof -
  have "list_all (\<lambda>c. length (snd c) = df_len df) (df_columns df)"
    using assms(1) by (simp add: wf_df_def)
  from clean_columns_result [OF this, of 0 g] show ?thesis
    by (auto simp: impute_def assms(2) [symmetric])
qed

section \<open>Completeness of the imputation\<close>

lemma all_missing_has_missing:
  "dropna col = [] \<Longrightarrow> 0 < length col \<Longrightarrow> filter isnull col \<noteq> []"
  by (auto simp: dropna_empty_iff no_missing_iff notna_def)

text \<open>
  C1 (amended).  For a well-formed dataframe with the default index, imputation returns;
  if the dataframe has at least one row, a column has no missing cell afterwards exactly
  when it had a non-missing value before; and a column that is entirely missing is
  returned unchanged, with replacement counter 0.
\<close>

theorem impute_missing_cells:
  assumes "wf_df df" and "df_index df = range_index (df_len df)"
  shows "\<exists>df' report t1 g'.
    impute df g = Inr (df', report, t1, g') \<and>
    length (df_columns df') = length (df_columns df) \<and>
    length report = length (df_columns df) \<and>
    (\<forall>k<length (df_columns df).
       (0 < df_len df \<longrightarrow>
          (filter isnull (snd (df_columns df' ! k)) = [] \<longleftrightarrow>
             dropna (snd (df_columns df ! k)) \<noteq> [])) \<and>
       (dropna (snd (df_columns df ! k)) = [] \<longrightarrow>
          snd (df_columns df' ! k) = snd (df_columns df ! k) \<and>
          dropna (snd (df_columns df' ! k)) = [] \<and> snd (report ! k) = 0))"
proof -
  obtain cols' report t1 g' where
    run: "impute df g = Inr (df\<lparr>df_columns := cols'\<rparr>, report, t1, g')" and
    names: "map fst cols' = map fst (df_columns df)" "map fst report = map fst (df_columns df)" and
    each: "\<forall>k<length (df_columns df). \<exists>gk gk'.
        clean_column (df_len df) (df_index df) (snd (df_columns df ! k)) gk =
          Inr (snd (cols' ! k), snd (report ! k), gk')"
    using impute_result [OF assms, of g] by blast
  have lens: "length cols' = length (df_columns df)" "length report = length (df_columns df)"
    using names by (metis length_map)+
  have col: "(0 < df_len df \<longrightarrow>
          (filter isnull (snd (cols' ! k)) = [] \<longleftrightarrow> dropna (snd (df_columns df ! k)) \<noteq> [])) \<and>
       (dropna (snd (df_columns df ! k)) = [] \<longrightarrow>
          snd (cols' ! k) = snd (df_columns df ! k) \<and>
          dropna (snd (cols' ! k)) = [] \<and> snd (report ! k) = 0)"
    if k: "k < length (df_columns df)" for k
  proof -
    let ?c = "snd (df_columns df ! k)"
    have len: "length ?c = df_len df"
      using assms k by (simp add: wf_df_def list_all_length)
    obtain gk gk' where
      ck: "clean_column (df_len df) (range_index (df_len df)) ?c gk =
        Inr (snd (cols' ! k), snd (report ! k), gk')"
      using each k assms(2) by auto
    show ?thesis
    proof (cases "dropna ?c = []")
      case True
      have same: "snd (cols' ! k) = ?c" "snd (report ! k) = 0"
        using clean_column_all_missing [OF len True, of gk] ck by simp_all
      then show ?thesis
        using True len all_missing_has_missing [of ?c] by auto
    next
      case False
      then show ?thesis
        using clean_column_complete [OF len False, of gk] ck by auto
    qed
  qed
  show ?thesis
    using run lens col by (intro exI [of _ "df\<lparr>df_columns := cols'\<rparr>"] exI [of _ report]
        exI [of _ t1] exI [of _ g']) simp
qed

lemma zero_rng_tail: "zero_rng \<circ> Suc = zero_rng"
  by (simp add: zero_rng_def fun_eq_iff)

lemma range_index_4: "range_index 4 = [IntLabel 0, IntLabel 1, IntLabel 2, IntLabel 3]"
  by code_simp

theorem impute_missing_cells_witness:
  "wf_df (\<lparr>df_index = [IntLabel 0, IntLabel 1, IntLabel 2, IntLabel 3], df_columns =
       [(''score'', [Num 5, NaN, NaN, Num 9]), (''note'', [NaN, NaN, NaN, NaN])]\<rparr>
       :: int dataframe) \<and>
   [IntLabel 0, IntLabel 1, IntLabel 2, IntLabel 3] = range_index 4 \<and>
   (\<exists>df' report t1 g'.
      impute (\<lparr>df_index = [IntLabel 0, IntLabel 1, IntLabel 2, IntLabel 3], df_columns =
       [(''score'', [Num 5, NaN, NaN, Num 9]), (''note'', [NaN, NaN, NaN, NaN])]\<rparr>
       :: int dataframe) zero_rng = Inr (df', report, t1, g') \<and>
      filter isnull (snd (df_columns df' ! 0)) = [] \<and>
      dropna (snd (df_columns df' ! 1)) = [] \<and> snd (report ! 1) = 0 \<and>
      df_columns df' =
        [(''score'', [Num 5, Num 5, Num 5, Num 9]), (''note'', [NaN, NaN, NaN, NaN])])"
proof -
  let ?df = "\<lparr>df_index = [IntLabel 0, IntLabel 1, IntLabel 2, IntLabel 3], df_columns =
       [(''score'', [Num 5, NaN, NaN, Num 9]), (''note'', [NaN, NaN, NaN, NaN])]\<rparr>
       :: int dataframe"
  have wf: "wf_df ?df" by (simp add: wf_df_def df_len_def is_int_label_def)
  have l4: "df_len ?df = 4" by (simp add: df_len_def)
  have ri: "df_index ?df = range_index (df_len ?df)" unfolding l4 by (simp add: range_index_4)
  have pos: "0 < df_len ?df" by (simp add: df_len_def)
  have a: "dropna (snd (df_columns ?df ! 0)) \<noteq> []" by (simp add: dropna_def notna_def)
  have b: "dropna (snd (df_columns ?df ! 1)) = []" by (simp add: dropna_def notna_def)
  have ev: "map_sum id (\<lambda>r. df_columns (fst r)) (impute ?df zero_rng) =
      Inr [(''score'', [Num 5, Num 5, Num 5, Num 9]), (''note'', [NaN, NaN, NaN, NaN])]"
    by code_simp
  from impute_missing_cells [OF wf ri, of zero_rng] obtain df' report t1 g' where
    run: "impute ?df zero_rng = Inr (df', report, t1, g')" and
    each: "\<forall>k<length (df_columns ?df).
       (0 < df_len ?df \<longrightarrow>
          (filter isnull (snd (df_columns df' ! k)) = [] \<longleftrightarrow>
             dropna (snd (df_columns ?df ! k)) \<noteq> [])) \<and>
       (dropna (snd (df_columns ?df ! k)) = [] \<longrightarrow>
          snd (df_columns df' ! k) = snd (df_columns ?df ! k) \<and>
          dropna (snd (df_columns df' ! k)) = [] \<and> snd (report ! k) = 0)"
    by blast
  have "filter isnull (snd (df_columns df' ! 0)) = []"
    using each [rule_format, of 0] a pos by simp
  moreover have "dropna (snd (df_columns df' ! 1)) = [] \<and> snd (report ! 1) = 0"
    using each [rule_format, of 1] b by simp
  moreover have "df_columns df' =
      [(''score'', [Num 5, Num 5, Num 5, Num 9]), (''note'', [NaN, NaN, NaN, NaN])]"
    using ev run by simp
  ultimately have "\<exists>df' report t1 g'.
      impute ?df zero_rng = Inr (df', report, t1, g') \<and>
      filter isnull (snd (df_columns df' ! 0)) = [] \<and>
      dropna (snd (df_columns df' ! 1)) = [] \<and> snd (report ! 1) = 0 \<and>
      df_columns df' =
        [(''score'', [Num 5, Num 5, Num 5, Num 9]), (''note'', [NaN, NaN, NaN, NaN])]"
    using run by blast
  then show ?thesis using wf by (simp add: range_index_4)
qed

text \<open>
  Two dataframes on which the claim as stated fails.  With zero rows, the column has no
  missing cell after imputation and had no non-missing value before.  With the index
  \<open>1.0, nan, 3.0\<close> (what \<^verbatim>\<open>read_csv\<close> builds from rows with a trailing delimiter), the
  first iteration raises, so the column \<open>a\<close>, which holds non-missing values, is not
  completed.
\<close>

theorem impute_zero_rows_counterexample:
  "impute (\<lparr>df_index = [], df_columns = [(''a'', [])]\<rparr> :: int dataframe) zero_rng =
     Inr (\<lparr>df_index = [], df_columns = [(''a'', [])]\<rparr>, [(''a'', 0)], 0, zero_rng) \<and>
   filter isnull
     (snd (df_columns (\<lparr>df_index = [], df_columns = [(''a'', [])]\<rparr> :: int dataframe) ! 0)) = [] \<and>
   dropna
     (snd (df_columns (\<lparr>df_index = [], df_columns = [(''a'', [])]\<rparr> :: int dataframe) ! 0)) = [] \<and>
   impute (\<lparr>df_index = [FloatLabel ''1.0'', FloatLabel ''nan'', FloatLabel ''3.0''],
            df_columns = [(''a'', [NaN, Num 4, Num 5]), (''b'', [NaN, NaN, NaN])]\<rparr>
           :: int dataframe) zero_rng = Inl TypeError \<and>
   dropna [NaN, Num (4::int), Num 5] = [Num 4, Num 5]"
  by (simp add: impute_def clean_column_def null_indices_def dropna_def df_len_def
      isnull_def notna_def fill_cell_def)

section \<open>The window of the neighbour search\<close>

lemma find_append_none:
  "\<forall>x\<in>set xs. \<not> P x \<Longrightarrow> find P (xs @ ys) = find P ys"
  by (induction xs) simp_all

lemma first_notna_nearest:
  assumes "rows = pre @ j # post" and "\<forall>i\<in>set pre. col ! i = NaN" and "notna (col ! j)"
  shows "first_notna col rows = [col ! j]"
proof -
  have "find (\<lambda>i. notna (col ! i)) (pre @ j # post) = Some j"
    using assms(2,3) by (simp add: find_append_none notna_def)
  then show ?thesis
    by (simp add: first_notna_def assms(1))
qed

lemma upt_split:
  assumes "a \<le> j" and "j < b"
  shows "[a ..< b] = [a ..< j] @ j # [Suc j ..< b]"
proof -
  have "[a ..< b] = [a ..< j] @ [j ..< b]"
    using assms upt_add_eq_append [of a j "b - j"] by simp
  then show ?thesis
    using assms(2) by (simp add: upt_conv_Cons)
qed

lemma rows_above_split:
  assumes "j < idx" and "idx \<le> j + 5"
  shows "rows_above idx = rev [Suc j ..< idx] @ j # rev [idx - 5 ..< j]"
proof -
  have "idx - 5 \<le> j" using assms by simp
  then have "[idx - 5 ..< idx] = [idx - 5 ..< j] @ j # [Suc j ..< idx]"
    using assms(1) by (rule upt_split)
  then show ?thesis by (simp add: rows_above_def)
qed

lemma rows_below_split:
  assumes "idx < j" and "j \<le> idx + 5" and "j < n"
  shows "rows_below n idx = [Suc idx ..< j] @ j # [Suc j ..< min n (idx + 6)]"
proof -
  have "Suc idx \<le> j" and "j < min n (idx + 6)"
    using assms by simp_all
  then show ?thesis
    unfolding rows_below_def by (rule upt_split)
qed

lemma length_first_notna: "length (first_notna col rows) \<le> 1"
  by (simp add: first_notna_def split: option.splits)


lemma above_nearest:
  assumes "j < idx" and "idx \<le> j + 5" and "notna (col ! j)"
    and "\<forall>i. j < i \<and> i < idx \<longrightarrow> col ! i = NaN"
  shows "first_notna col (rows_above idx) = [col ! j]"
  using rows_above_split [OF assms(1,2)] assms(3,4)
  by (intro first_notna_nearest [where pre = "rev [Suc j ..< idx]"]) auto

lemma below_nearest:
  assumes "idx < j" and "j \<le> idx + 5" and "j < n" and "notna (col ! j)"
    and "\<forall>i. idx < i \<and> i < j \<longrightarrow> col ! i = NaN"
  shows "first_notna col (rows_below n idx) = [col ! j]"
  using rows_below_split [OF assms(1,2,3)] assms(4,5)
  by (intro first_notna_nearest [where pre = "[Suc idx ..< j]"]) auto

lemma above_none:
  "\<forall>j. j < idx \<and> idx \<le> j + 5 \<longrightarrow> col ! j = NaN \<Longrightarrow> first_notna col (rows_above idx) = []"
  by (intro first_notna_all_missing) (auto simp: rows_above_def)

lemma below_none:
  "\<forall>j. idx < j \<and> j \<le> idx + 5 \<and> j < n \<longrightarrow> col ! j = NaN \<Longrightarrow>
   first_notna col (rows_below n idx) = []"
  by (intro first_notna_all_missing) (auto simp: rows_below_def)

text \<open>
  With the default index, labels are positions: for a row \<open>idx\<close> of a column of \<open>n\<close>
  rows, the upward loop runs over the rows \<open>idx - 1\<close> down to \<open>idx - 5\<close> (not below row
  0) and yields the nearest non-missing value among them, or nothing; the downward loop
  runs over the rows \<open>idx + 1\<close> up to \<open>idx + 5\<close> (not beyond the last row) and does the
  same; \<open>adjacent_values\<close> is the first result followed by the second.
\<close>

lemma adjacent_values_window:
  assumes "length col = n" and "idx < n"
  shows "\<exists>a b.
    range_down (int idx - 1) (max (- 1) (int idx - 6)) = map int (rev [idx - 5 ..< idx]) \<and>
    range_up (int idx + 1) (min (int n) (int idx + 6)) = map int [Suc idx ..< min n (idx + 6)] \<and>
    check_above (range_index n) col (range_down (int idx - 1) (max (- 1) (int idx - 6))) = Inr a \<and>
    check_below (range_index n) col (range_up (int idx + 1) (min (int n) (int idx + 6))) = Inr b \<and>
    adjacent_values n (range_index n) col (int idx) = Inr (a @ b) \<and>
    length a \<le> 1 \<and> length b \<le> 1 \<and> card (set (a @ b)) \<le> 2 \<and>
    (\<forall>j. j < idx \<and> idx \<le> j + 5 \<and> notna (col ! j) \<and>
         (\<forall>i. j < i \<and> i < idx \<longrightarrow> col ! i = NaN) \<longrightarrow> a = [col ! j]) \<and>
    ((\<forall>j. j < idx \<and> idx \<le> j + 5 \<longrightarrow> col ! j = NaN) \<longrightarrow> a = []) \<and>
    (\<forall>j. idx < j \<and> j \<le> idx + 5 \<and> j < n \<and> notna (col ! j) \<and>
         (\<forall>i. idx < i \<and> i < j \<longrightarrow> col ! i = NaN) \<longrightarrow> b = [col ! j]) \<and>
    ((\<forall>j. idx < j \<and> j \<le> idx + 5 \<and> j < n \<longrightarrow> col ! j = NaN) \<longrightarrow> b = [])"
proof -
  let ?a = "first_notna col (rows_above idx)"
  let ?b = "first_notna col (rows_below n idx)"
  have i1: "idx \<le> n" using assms by simp
  have ra: "\<forall>j\<in>set (rows_above idx). j < n"
    using assms rows_above_in_range [of idx col] by simp
  have rb: "\<forall>j\<in>set (rows_below n idx). j < n"
    using assms rows_below_in_range [of n col idx] by simp
  have r1: "range_down (int idx - 1) (max (- 1) (int idx - 6)) = map int (rev [idx - 5 ..< idx])"
    using range_down_rows [of idx] by (simp add: rows_above_def)
  have r2: "range_up (int idx + 1) (min (int n) (int idx + 6)) = map int [Suc idx ..< min n (idx + 6)]"
    using range_up_rows [of idx n] by (simp add: rows_below_def)
  have ca: "check_above (range_index n) col (range_down (int idx - 1) (max (- 1) (int idx - 6))) = Inr ?a"
    unfolding range_down_rows by (rule check_above_rows [OF assms(1) ra])
  have cb: "check_below (range_index n) col (range_up (int idx + 1) (min (int n) (int idx + 6))) = Inr ?b"
    unfolding range_up_rows by (rule check_below_rows [OF assms(1) rb])
  have adj: "adjacent_values n (range_index n) col (int idx) = Inr (?a @ ?b)"
    by (rule adjacent_values_eq [OF assms(1) i1])
  have la: "length ?a \<le> 1" and lb: "length ?b \<le> 1"
    by (rule length_first_notna)+
  have "card (set (?a @ ?b)) \<le> length (?a @ ?b)" by (rule card_length)
  then have cd: "card (set (?a @ ?b)) \<le> 2" using la lb by simp
  have n1: "\<forall>j. j < idx \<and> idx \<le> j + 5 \<and> notna (col ! j) \<and>
         (\<forall>i. j < i \<and> i < idx \<longrightarrow> col ! i = NaN) \<longrightarrow> ?a = [col ! j]"
    using above_nearest [of _ idx col] by blast
  have n2: "(\<forall>j. j < idx \<and> idx \<le> j + 5 \<longrightarrow> col ! j = NaN) \<longrightarrow> ?a = []"
    using above_none [of idx col] by blast
  have n3: "\<forall>j. idx < j \<and> j \<le> idx + 5 \<and> j < n \<and> notna (col ! j) \<and>
         (\<forall>i. idx < i \<and> i < j \<longrightarrow> col ! i = NaN) \<longrightarrow> ?b = [col ! j]"
    using below_nearest [of idx _ n col] by blast
  have n4: "(\<forall>j. idx < j \<and> j \<le> idx + 5 \<and> j < n \<longrightarrow> col ! j = NaN) \<longrightarrow> ?b = []"
    using below_none [of idx n col] by blast
  show ?thesis
    using r1 r2 ca cb adj la lb cd n1 n2 n3 n4
    by (intro exI [of _ ?a] exI [of _ ?b]) (simp only: simp_thms)
qed

text \<open>
  C2.  The loops of lines 51 to 60 look rows up by label, not by position.  In the
  dataframe with the labels \<open>2, 1, 0, 3\<close> and the column \<open>1, NaN, 7, 9\<close>, the search for
  the missing cell of the second row (label 1) takes its upward candidate from the third
  row (label 0) and its downward candidate from the first row (label 2): the list is
  \<open>7, 1\<close>, not the values of the rows next to the cell in row order, \<open>1, 7\<close>.  With the
  labels \<open>0, 10, 20\<close>, the upward loop asks for the label 9, which no row carries, and
  raises.
\<close>

theorem adjacent_values_by_label:
  "adjacent_values 4 [IntLabel 2, IntLabel 1, IntLabel 0, IntLabel 3]
     [Num (1::int), NaN, Num 7, Num 9] 1 = Inr [Num 7, Num 1] \<and>
   null_indices [IntLabel 2, IntLabel 1, IntLabel 0, IntLabel 3]
     [Num (1::int), NaN, Num 7, Num 9] = [IntLabel 1] \<and>
   adjacent_values 3 [IntLabel 0, IntLabel 10, IntLabel 20]
     [Num (1::int), NaN, Num 7] 10 = Inl KeyError \<and>
   null_indices [IntLabel 0, IntLabel 10, IntLabel 20] [Num (1::int), NaN, Num 7] =
     [IntLabel 10]"
  by code_simp

section \<open>The state of a pass when it reaches a row\<close>

lemma null_rows_sorted: "sorted_wrt (<) (null_rows col)"
  by (simp add: null_rows_def sorted_wrt_filter)

lemma sorted_split:
  "sorted_wrt (<) xs \<Longrightarrow> x \<in> set xs \<Longrightarrow>
   xs = filter (\<lambda>i. i < x) xs @ x # filter (\<lambda>i. x < i) (xs :: nat list)"
proof (induction xs)
  case Nil
  then show ?case by simp
next
  case (Cons y ys)
  show ?case
  proof (cases "x = y")
    case True
    have "\<forall>z\<in>set ys. y < z" using Cons.prems(1) by simp
    then have "filter (\<lambda>i. i < y) ys = []" and "filter (\<lambda>i. y < i) ys = ys"
      by (auto simp: filter_empty_conv filter_id_conv)
    then show ?thesis using True by simp
  next
    case False
    then have mem: "x \<in> set ys" using Cons.prems(2) by simp
    then have "y < x" using Cons.prems(1) by auto
    moreover have "ys = filter (\<lambda>i. i < x) ys @ x # filter (\<lambda>i. x < i) ys"
      using Cons.IH Cons.prems(1) mem by simp
    ultimately show ?thesis by auto
  qed
qed

lemma null_rows_split:
  assumes "idx < length col" and "col ! idx = NaN"
  shows "null_rows col =
    filter (\<lambda>i. i < idx) (null_rows col) @ idx # filter (\<lambda>i. idx < i) (null_rows col)"
  using assms by (intro sorted_split null_rows_sorted) (simp add: null_rows_iff)

lemma take_range_index: "p \<le> n \<Longrightarrow> take p (range_index n) = range_index p"
  by (simp add: range_index_def take_map)

lemma filter_less_upt: "p \<le> n \<Longrightarrow> filter (\<lambda>i. i < p) [0 ..< n] = [0 ..< p]"
proof -
  assume "p \<le> n"
  then have "[0 ..< n] = [0 ..< p] @ [p ..< n]"
    using upt_add_eq_append [of 0 p "n - p"] by simp
  moreover have "filter (\<lambda>i. i < p) [0 ..< p] = [0 ..< p]"
    by (simp add: filter_id_conv)
  moreover have "filter (\<lambda>i. i < p) [p ..< n] = []"
    by (simp add: filter_empty_conv)
  ultimately show ?thesis by simp
qed

lemma null_rows_take:
  assumes "p \<le> length col"
  shows "null_rows (take p col) = filter (\<lambda>i. i < p) (null_rows col)"
proof -
  have "filter (\<lambda>i. i < p) (null_rows col) =
      filter (\<lambda>i. isnull (col ! i)) (filter (\<lambda>i. i < p) [0 ..< length col])"
    by (simp add: null_rows_def conj_commute)
  then have "filter (\<lambda>i. i < p) (null_rows col) = filter (\<lambda>i. isnull (col ! i)) [0 ..< p]"
    using assms by (simp only: filter_less_upt)
  moreover have "null_rows (take p col) = filter (\<lambda>i. isnull (col ! i)) [0 ..< p]"
    using assms by (auto simp: null_rows_def intro: filter_cong)
  ultimately show ?thesis by simp
qed

lemma null_indices_any_index:
  "length index = length col \<Longrightarrow>
   null_indices index col = map (\<lambda>p. index ! p) (null_rows col)"
proof -
  assume len: "length index = length col"
  have "zip index col = map (\<lambda>p. (index ! p, col ! p)) [0 ..< length col]"
    using len by (intro nth_equalityI) simp_all
  then show ?thesis
    by (simp add: null_indices_def null_rows_def filter_map comp_def)
qed

lemma fill_cells_append:
  "fill_cells n index (pre @ l # post) s =
    (case fill_cells n index pre s of
       Inl e \<Rightarrow> Inl e
     | Inr cur \<Rightarrow>
         (case fill_cell n index l cur of
            Inl e \<Rightarrow> Inl e
          | Inr nxt \<Rightarrow> fill_cells n index post nxt))"
  by (induction pre arbitrary: s) (auto split: sum.splits)

lemma state_before_eq:
  assumes "length col = n" and "idx \<le> n"
  shows "state_before n (range_index n) col g idx =
    Inr (foldl (fill_of n) (col, 0, g) (filter (\<lambda>i. i < idx) (null_rows col)))"
proof -
  have "null_indices (take idx (range_index n)) (take idx col) =
      map (\<lambda>p. IntLabel (int p)) (filter (\<lambda>i. i < idx) (null_rows col))"
    using assms
    by (simp add: take_range_index null_indices_range_index null_rows_take)
  then show ?thesis
    unfolding state_before_def
    using assms by (simp add: fill_cells_eq null_rows_iff)
qed

lemma fill_of_at:
  assumes "idx < length cur"
  shows "fst (fill_of n (cur, k, g) idx) ! idx =
    (if candidates n cur idx = [] then cur ! idx
     else candidates n cur idx ! (g 0 mod length (candidates n cur idx)))"
  using assms by (simp add: fill_of_def Let_def)

lemma pass_at:
  assumes len: "length col = n" and idx: "idx < n" and miss: "col ! idx = NaN"
  shows "\<exists>cur k g1 final k' g'.
    state_before n (range_index n) col g idx = Inr (cur, k, g1) \<and>
    clean_column n (range_index n) col g = Inr (final, k', g') \<and>
    length cur = n \<and> length final = n \<and>
    (\<forall>j<idx. cur ! j = final ! j) \<and>
    (\<forall>j. idx \<le> j \<longrightarrow> cur ! j = col ! j) \<and>
    final ! idx = fst (fill_of n (cur, k, g1) idx) ! idx \<and>
    (0 < idx \<and> col ! (idx - 1) = NaN \<and> dropna col \<noteq> [] \<longrightarrow> notna (cur ! (idx - 1)))"
proof -
  let ?pre = "filter (\<lambda>i. i < idx) (null_rows col)"
  let ?post = "filter (\<lambda>i. idx < i) (null_rows col)"
  define s where "s = foldl (fill_of n) (col, 0, g) ?pre"
  define f where "f = foldl (fill_of n) (fill_of n s idx) ?post"
  have split: "null_rows col = ?pre @ idx # ?post"
    using null_rows_split [of idx col] len idx miss by simp
  have ls: "length (fst s) = n"
    using len by (simp add: s_def length_foldl_fill_of)
  have lf: "length (fst f) = n"
    using ls by (simp add: f_def length_foldl_fill_of length_fill_of)
  have sb: "state_before n (range_index n) col g idx = Inr s"
    using state_before_eq [OF len, of idx g] idx by (simp add: s_def)
  have "foldl (fill_of n) (col, 0, g) (null_rows col) = f"
    by (subst split) (simp add: f_def s_def)
  then have cc: "clean_column n (range_index n) col g = Inr f"
    using clean_column_eq [OF len, of g] by simp
  have early: "fst s ! j = fst f ! j" if "j < idx" for j
  proof -
    have "j \<notin> set (idx # ?post)" using that by auto
    then have "fst (foldl (fill_of n) s (idx # ?post)) ! j = fst s ! j"
      by (rule foldl_fill_of_other)
    then show ?thesis by (simp add: f_def)
  qed
  have late: "fst s ! j = col ! j" if "idx \<le> j" for j
  proof -
    have "j \<notin> set ?pre" using that by auto
    then show ?thesis
      unfolding s_def using foldl_fill_of_other [of j ?pre n "(col, 0, g)"] by simp
  qed
  have here: "fst f ! idx = fst (fill_of n s idx) ! idx"
  proof -
    have "idx \<notin> set ?post" by simp
    then show ?thesis
      unfolding f_def by (rule foldl_fill_of_other)
  qed
  have filled: "notna (fst s ! (idx - 1))"
    if h: "0 < idx \<and> col ! (idx - 1) = NaN \<and> dropna col \<noteq> []"
  proof -
    have "idx - 1 \<in> set ?pre"
      using h idx len by (simp add: null_rows_iff)
    moreover have "\<forall>i\<in>set ?pre. i < length (fst (col, 0, g))"
      by (simp add: null_rows_iff)
    ultimately show ?thesis
      unfolding s_def using h
      by (intro foldl_fill_of_filled) simp_all
  qed
  obtain cur k g1 where s: "s = (cur, k, g1)" by (cases s)
  obtain final k' g' where f: "f = (final, k', g')" by (cases f)
  show ?thesis
    using sb cc ls lf early late here filled unfolding s f
    by (intro exI [of _ cur] exI [of _ k] exI [of _ g1] exI [of _ final] exI [of _ k']
        exI [of _ g']) simp
qed

lemma set_loc_nth:
  "length index = length col \<Longrightarrow> p < length col \<Longrightarrow>
   set_loc index col i v ! p = (if index ! p = IntLabel i then v else col ! p)"
  by (simp add: set_loc_def)

section \<open>What a pass reads and what it writes\<close>

lemma pass_step_at:
  assumes "length col = n" and "idx < n" and "col ! idx = NaN"
  shows "\<exists>cur k g1 final k' g' adj.
    state_before n (range_index n) col g idx = Inr (cur, k, g1) \<and>
    clean_column n (range_index n) col g = Inr (final, k', g') \<and>
    (\<forall>j<idx. cur ! j = final ! j) \<and>
    (\<forall>j. idx \<le> j \<longrightarrow> cur ! j = col ! j) \<and>
    adjacent_values n (range_index n) cur (int idx) = Inr adj \<and>
    final ! idx =
      (if adj \<noteq> [] then adj ! (g1 0 mod length adj)
       else if dropna cur \<noteq> [] then dropna cur ! (g1 0 mod length (dropna cur))
       else NaN) \<and>
    (0 < idx \<and> col ! (idx - 1) = NaN \<and> dropna col \<noteq> [] \<longrightarrow>
       notna (final ! (idx - 1)) \<and> adj \<noteq> [] \<and> hd adj = final ! (idx - 1))"
proof -
  obtain cur k g1 final k' g' where
    sb: "state_before n (range_index n) col g idx = Inr (cur, k, g1)" and
    cc: "clean_column n (range_index n) col g = Inr (final, k', g')" and
    lc: "length cur = n" and
    early: "\<forall>j<idx. cur ! j = final ! j" and
    late: "\<forall>j. idx \<le> j \<longrightarrow> cur ! j = col ! j" and
    here: "final ! idx = fst (fill_of n (cur, k, g1) idx) ! idx" and
    filled: "0 < idx \<and> col ! (idx - 1) = NaN \<and> dropna col \<noteq> [] \<longrightarrow> notna (cur ! (idx - 1))"
    using pass_at [OF assms, of g] by blast
  define adj where "adj = first_notna cur (rows_above idx) @ first_notna cur (rows_below n idx)"
  define c where "c = candidates n cur idx"
  have adj: "adjacent_values n (range_index n) cur (int idx) = Inr adj"
    unfolding adj_def using lc assms(2) by (intro adjacent_values_eq) simp_all
  have c_eq: "c = (if adj \<noteq> [] then adj else dropna cur)"
    by (simp only: c_def adj_def candidates_def Let_def)
  have val: "final ! idx = (if c = [] then cur ! idx else c ! (g1 0 mod length c))"
    using here fill_of_at [of idx cur n k g1] lc assms(2) by (simp add: c_def)
  have "cur ! idx = NaN" using late assms(3) by simp
  then have pick: "final ! idx =
      (if adj \<noteq> [] then adj ! (g1 0 mod length adj)
       else if dropna cur \<noteq> [] then dropna cur ! (g1 0 mod length (dropna cur))
       else NaN)"
    using val c_eq by (cases "adj = []") simp_all
  have vis: "notna (final ! (idx - 1)) \<and> adj \<noteq> [] \<and> hd adj = final ! (idx - 1)"
    if h: "0 < idx \<and> col ! (idx - 1) = NaN \<and> dropna col \<noteq> []"
  proof -
    have nn: "notna (cur ! (idx - 1))" using filled h by simp
    have none: "\<forall>i. idx - 1 < i \<and> i < idx \<longrightarrow> cur ! i = NaN"
      by auto
    have "first_notna cur (rows_above idx) = [cur ! (idx - 1)]"
      using h nn none by (intro above_nearest) simp_all
    then have "adj \<noteq> [] \<and> hd adj = cur ! (idx - 1)"
      by (simp add: adj_def)
    moreover have "cur ! (idx - 1) = final ! (idx - 1)"
      using early h by simp
    ultimately show ?thesis using nn by simp
  qed
  show ?thesis
    using sb cc early late adj pick vis by blast
qed

text \<open>
  C3.  With every index: the labels in \<^verbatim>\<open>null_indices\<close> are those of the missing rows
  in ascending row order; the pass hands the column left by one iteration to the next;
  and an iteration searches the column it is handed and writes into it.  With the
  default index, when the pass reaches a missing row \<open>idx\<close>: the column it searches
  holds the final values of all rows above \<open>idx\<close> and the original values from \<open>idx\<close>
  on; the value the row ends with is the random pick from the search on that column;
  and if the row just above was missing too (and the column has a non-missing value),
  the value it was filled with earlier in the pass is the first candidate at \<open>idx\<close>.
\<close>

theorem pass_reads_current_column:
  "(length index = length col0 \<longrightarrow>
      null_indices index col0 = map (\<lambda>p. index ! p) (null_rows col0)) \<and>
   sorted_wrt (<) (null_rows col0) \<and>
   set (null_rows col0) = {p. p < length col0 \<and> col0 ! p = NaN} \<and>
   fill_cells m index (pre @ l # post) s =
     (case fill_cells m index pre s of
        Inl e \<Rightarrow> Inl e
      | Inr cur \<Rightarrow>
          (case fill_cell m index l cur of
             Inl e \<Rightarrow> Inl e
           | Inr nxt \<Rightarrow> fill_cells m index post nxt)) \<and>
   fill_cell m index (IntLabel i) (cur0, k0, g0) =
     (case adjacent_values m index cur0 i of
        Inl e \<Rightarrow> Inl e
      | Inr adj \<Rightarrow>
          (let cands = (if adj \<noteq> [] then adj else dropna cur0) in
           if cands = [] then Inr (cur0, k0, g0)
           else Inr (set_loc index cur0 i (cands ! (g0 0 mod length cands)), k0 + 1,
                     g0 \<circ> Suc))) \<and>
   (length col = n \<and> idx < n \<and> col ! idx = NaN \<longrightarrow>
     (\<exists>cur k g1 final k' g' adj.
        state_before n (range_index n) col g idx = Inr (cur, k, g1) \<and>
        clean_column n (range_index n) col g = Inr (final, k', g') \<and>
        (\<forall>j<idx. cur ! j = final ! j) \<and>
        (\<forall>j. idx \<le> j \<longrightarrow> cur ! j = col ! j) \<and>
        adjacent_values n (range_index n) cur (int idx) = Inr adj \<and>
        final ! idx =
          (if adj \<noteq> [] then adj ! (g1 0 mod length adj)
           else if dropna cur \<noteq> [] then dropna cur ! (g1 0 mod length (dropna cur))
           else NaN) \<and>
        (0 < idx \<and> col ! (idx - 1) = NaN \<and> dropna col \<noteq> [] \<longrightarrow>
           notna (final ! (idx - 1)) \<and> adj \<noteq> [] \<and> hd adj = final ! (idx - 1))))"
proof -
  have a: "length index = length col0 \<longrightarrow>
      null_indices index col0 = map (\<lambda>p. index ! p) (null_rows col0)"
    by (simp add: null_indices_any_index)
  have b: "set (null_rows col0) = {p. p < length col0 \<and> col0 ! p = NaN}"
    by (auto simp: null_rows_iff)
  have step: "fill_cell m index (IntLabel i) (cur0, k0, g0) =
     (case adjacent_values m index cur0 i of
        Inl e \<Rightarrow> Inl e
      | Inr adj \<Rightarrow>
          (let cands = (if adj \<noteq> [] then adj else dropna cur0) in
           if cands = [] then Inr (cur0, k0, g0)
           else Inr (set_loc index cur0 i (cands ! (g0 0 mod length cands)), k0 + 1,
                     g0 \<circ> Suc)))"
    by (simp add: fill_cell_def choice_def Let_def split: sum.splits)
  show ?thesis
    using a b null_rows_sorted [of col0] fill_cells_append [of m index pre l post s]
      step pass_step_at [of col n idx g]
    by (simp only: simp_thms) blast
qed

lemma range_index_8:
  "range_index 8 = [IntLabel 0, IntLabel 1, IntLabel 2, IntLabel 3, IntLabel 4, IntLabel 5,
     IntLabel 6, IntLabel 7]"
  by code_simp

text \<open>
  A column on which reading the current state shows: the only non-missing values are in
  the first and the last of eight rows.  A search on the original column at row 6 finds
  only the value below, 2; in the pass, row 5 has been filled before row 6 is reached,
  its value is the first candidate at row 6, and with the random source that always
  draws 0 row 6 ends with 1.
\<close>

theorem pass_reads_current_column_witness:
  "length [Num (1::int), NaN, NaN, NaN, NaN, NaN, NaN, Num 2] = 8 \<and> (6::nat) < 8 \<and>
   [Num (1::int), NaN, NaN, NaN, NaN, NaN, NaN, Num 2] ! 6 = NaN \<and>
   adjacent_values 8 (range_index 8) [Num (1::int), NaN, NaN, NaN, NaN, NaN, NaN, Num 2] 6 =
     Inr [Num 2] \<and>
   (\<exists>cur k g1 final k' g' adj.
      state_before 8 (range_index 8) [Num (1::int), NaN, NaN, NaN, NaN, NaN, NaN, Num 2]
        zero_rng 6 = Inr (cur, k, g1) \<and>
      clean_column 8 (range_index 8) [Num (1::int), NaN, NaN, NaN, NaN, NaN, NaN, Num 2]
        zero_rng = Inr (final, k', g') \<and>
      adjacent_values 8 (range_index 8) cur 6 = Inr adj \<and>
      notna (final ! 5) \<and> hd adj = final ! 5 \<and> cur ! 5 = final ! 5 \<and>
      final = [Num 1, Num 1, Num 1, Num 1, Num 1, Num 1, Num 1, Num 2])"
proof -
  let ?col = "[Num (1::int), NaN, NaN, NaN, NaN, NaN, NaN, Num 2]"
  have h: "length ?col = 8 \<and> (6::nat) < 8 \<and> ?col ! 6 = NaN" by simp
  have snap: "adjacent_values 8 (range_index 8) ?col 6 = Inr [Num 2]"
    unfolding range_index_8 by code_simp
  have run: "map_sum id fst (clean_column 8 (range_index 8) ?col zero_rng) =
      Inr [Num 1, Num 1, Num 1, Num 1, Num 1, Num 1, Num 1, Num 2]"
    unfolding range_index_8 by code_simp
  have side: "0 < (6::nat) \<and> ?col ! (6 - 1) = NaN \<and> dropna ?col \<noteq> []"
    by (simp add: dropna_def notna_def)
  note d = pass_reads_current_column [where col = ?col and n = 8 and idx = 6 and g = zero_rng,
      THEN conjunct2, THEN conjunct2, THEN conjunct2, THEN conjunct2, THEN conjunct2]
  from d h obtain cur k g1 final k' g' adj where
    sb: "state_before 8 (range_index 8) ?col zero_rng 6 = Inr (cur, k, g1)" and
    cc: "clean_column 8 (range_index 8) ?col zero_rng = Inr (final, k', g')" and
    early: "\<forall>j<6. cur ! j = final ! j" and
    adj0: "adjacent_values 8 (range_index 8) cur (int 6) = Inr adj" and
    vis: "0 < (6::nat) \<and> ?col ! (6 - 1) = NaN \<and> dropna ?col \<noteq> [] \<longrightarrow>
       notna (final ! (6 - 1)) \<and> adj \<noteq> [] \<and> hd adj = final ! (6 - 1)"
    by blast
  have adj: "adjacent_values 8 (range_index 8) cur 6 = Inr adj"
    using adj0 by simp
  have v: "notna (final ! 5) \<and> hd adj = final ! 5"
    using vis side by simp
  have e: "cur ! 5 = final ! 5" using early by simp
  have f: "final = [Num 1, Num 1, Num 1, Num 1, Num 1, Num 1, Num 1, Num 2]"
    using run cc by simp
  have "\<exists>cur k g1 final k' g' adj.
      state_before 8 (range_index 8) ?col zero_rng 6 = Inr (cur, k, g1) \<and>
      clean_column 8 (range_index 8) ?col zero_rng = Inr (final, k', g') \<and>
      adjacent_values 8 (range_index 8) cur 6 = Inr adj \<and>
      notna (final ! 5) \<and> hd adj = final ! 5 \<and> cur ! 5 = final ! 5 \<and>
      final = [Num 1, Num 1, Num 1, Num 1, Num 1, Num 1, Num 1, Num 2]"
    using sb cc adj v e f by blast
  then show ?thesis using h snap by simp
qed

lemma pass_value_at:
  assumes "length col = n" and "idx < n" and "col ! idx = NaN"
  shows "\<exists>cur k g1 final k' g' adj.
    state_before n (range_index n) col g idx = Inr (cur, k, g1) \<and>
    clean_column n (range_index n) col g = Inr (final, k', g') \<and>
    adjacent_values n (range_index n) cur (int idx) = Inr adj \<and>
    (adj \<noteq> [] \<longrightarrow> final ! idx \<in> set adj) \<and>
    (adj = [] \<and> dropna cur \<noteq> [] \<longrightarrow> final ! idx \<in> set (dropna cur)) \<and>
    (adj = [] \<and> dropna cur = [] \<longrightarrow> final ! idx = NaN)"
proof -
  obtain cur k g1 final k' g' adj where
    sb: "state_before n (range_index n) col g idx = Inr (cur, k, g1)" and
    cc: "clean_column n (range_index n) col g = Inr (final, k', g')" and
    adj: "adjacent_values n (range_index n) cur (int idx) = Inr adj" and
    pick: "final ! idx =
      (if adj \<noteq> [] then adj ! (g1 0 mod length adj)
       else if dropna cur \<noteq> [] then dropna cur ! (g1 0 mod length (dropna cur))
       else NaN)"
    using pass_step_at [OF assms, of g] by blast
  have c1: "adj \<noteq> [] \<longrightarrow> final ! idx \<in> set adj"
    using pick by simp
  have c2: "adj = [] \<and> dropna cur \<noteq> [] \<longrightarrow> final ! idx \<in> set (dropna cur)"
    using pick by simp
  have c3: "adj = [] \<and> dropna cur = [] \<longrightarrow> final ! idx = NaN"
    using pick by simp
  show ?thesis using sb cc adj c1 c2 c3 by blast
qed

text \<open>
  C4.  With every index and every random source, an iteration for an integer label
  either raises, when the search raises, or: writes an element of \<open>adjacent_values\<close>,
  computed on the column as it stands, into every row that carries the label, when that
  list is non-empty; else writes an element of the non-missing values of that column,
  when there are any; else leaves the column as it is.  An iteration for a float or
  string label raises and writes nothing.  With the default index the pass returns, and
  the value a missing row ends with is such an element for the column on which the pass
  reaches the row, or the row is still missing.
\<close>

theorem fill_value_from_candidates:
  "(\<forall>e. adjacent_values m index start i = Inl e \<longrightarrow>
      fill_cell m index (IntLabel i) (start, cnt, src) = Inl e) \<and>
   (\<forall>adj. adjacent_values m index start i = Inr adj \<longrightarrow>
      (adj \<noteq> [] \<longrightarrow>
         (\<exists>v. v \<in> set adj \<and>
            fill_cell m index (IntLabel i) (start, cnt, src) =
              Inr (set_loc index start i v, cnt + 1, src \<circ> Suc))) \<and>
      (adj = [] \<and> dropna start \<noteq> [] \<longrightarrow>
         (\<exists>v. v \<in> set (dropna start) \<and>
            fill_cell m index (IntLabel i) (start, cnt, src) =
              Inr (set_loc index start i v, cnt + 1, src \<circ> Suc))) \<and>
      (adj = [] \<and> dropna start = [] \<longrightarrow>
         fill_cell m index (IntLabel i) (start, cnt, src) = Inr (start, cnt, src))) \<and>
   fill_cell m index (FloatLabel t) (start, cnt, src) = Inl TypeError \<and>
   fill_cell m index (StrLabel t) (start, cnt, src) = Inl TypeError \<and>
   (length index = length start \<longrightarrow>
      (\<forall>p<length start.
         set_loc index start i val ! p = (if index ! p = IntLabel i then val else start ! p))) \<and>
   (length col = n \<and> idx < n \<and> col ! idx = NaN \<longrightarrow>
     (\<exists>cur k g1 final k' g' adj.
        state_before n (range_index n) col g idx = Inr (cur, k, g1) \<and>
        clean_column n (range_index n) col g = Inr (final, k', g') \<and>
        adjacent_values n (range_index n) cur (int idx) = Inr adj \<and>
        (adj \<noteq> [] \<longrightarrow> final ! idx \<in> set adj) \<and>
        (adj = [] \<and> dropna cur \<noteq> [] \<longrightarrow> final ! idx \<in> set (dropna cur)) \<and>
        (adj = [] \<and> dropna cur = [] \<longrightarrow> final ! idx = NaN)))"
proof -
  have fc: "fill_cell m index (IntLabel i) (start, cnt, src) =
     (case adjacent_values m index start i of
        Inl e \<Rightarrow> Inl e
      | Inr adj \<Rightarrow>
          (let cands = (if adj \<noteq> [] then adj else dropna start) in
           if cands = [] then Inr (start, cnt, src)
           else Inr (set_loc index start i (cands ! (src 0 mod length cands)), cnt + 1,
                     src \<circ> Suc)))"
    by (simp add: fill_cell_def choice_def Let_def split: sum.splits)
  have a: "(\<forall>e. adjacent_values m index start i = Inl e \<longrightarrow>
      fill_cell m index (IntLabel i) (start, cnt, src) = Inl e) \<and>
   (\<forall>adj. adjacent_values m index start i = Inr adj \<longrightarrow>
      (adj \<noteq> [] \<longrightarrow>
         (\<exists>v. v \<in> set adj \<and>
            fill_cell m index (IntLabel i) (start, cnt, src) =
              Inr (set_loc index start i v, cnt + 1, src \<circ> Suc))) \<and>
      (adj = [] \<and> dropna start \<noteq> [] \<longrightarrow>
         (\<exists>v. v \<in> set (dropna start) \<and>
            fill_cell m index (IntLabel i) (start, cnt, src) =
              Inr (set_loc index start i v, cnt + 1, src \<circ> Suc))) \<and>
      (adj = [] \<and> dropna start = [] \<longrightarrow>
         fill_cell m index (IntLabel i) (start, cnt, src) = Inr (start, cnt, src)))"
  proof (intro conjI allI impI)
    fix e
    assume "adjacent_values m index start i = Inl e"
    then show "fill_cell m index (IntLabel i) (start, cnt, src) = Inl e"
      by (simp add: fc)
  next
    fix adj
    assume a: "adjacent_values m index start i = Inr adj" and ne: "adj \<noteq> []"
    have "adj ! (src 0 mod length adj) \<in> set adj" using ne by simp
    moreover have "fill_cell m index (IntLabel i) (start, cnt, src) =
        Inr (set_loc index start i (adj ! (src 0 mod length adj)), cnt + 1, src \<circ> Suc)"
      using a ne by (simp add: fc)
    ultimately show "\<exists>v. v \<in> set adj \<and>
        fill_cell m index (IntLabel i) (start, cnt, src) =
          Inr (set_loc index start i v, cnt + 1, src \<circ> Suc)"
      by blast
  next
    fix adj
    assume a: "adjacent_values m index start i = Inr adj"
      and h: "adj = [] \<and> dropna start \<noteq> []"
    let ?d = "dropna start"
    have "?d ! (src 0 mod length ?d) \<in> set ?d" using h by simp
    moreover have "fill_cell m index (IntLabel i) (start, cnt, src) =
        Inr (set_loc index start i (?d ! (src 0 mod length ?d)), cnt + 1, src \<circ> Suc)"
      using a h by (simp add: fc Let_def)
    ultimately show "\<exists>v. v \<in> set ?d \<and>
        fill_cell m index (IntLabel i) (start, cnt, src) =
          Inr (set_loc index start i v, cnt + 1, src \<circ> Suc)"
      by blast
  next
    fix adj
    assume "adjacent_values m index start i = Inr adj" and "adj = [] \<and> dropna start = []"
    then show "fill_cell m index (IntLabel i) (start, cnt, src) = Inr (start, cnt, src)"
      by (simp add: fc)
  qed
  have b: "length index = length start \<longrightarrow>
      (\<forall>p<length start.
         set_loc index start i val ! p = (if index ! p = IntLabel i then val else start ! p))"
    by (simp add: set_loc_nth)
  have c: "length col = n \<and> idx < n \<and> col ! idx = NaN \<longrightarrow>
     (\<exists>cur k g1 final k' g' adj.
        state_before n (range_index n) col g idx = Inr (cur, k, g1) \<and>
        clean_column n (range_index n) col g = Inr (final, k', g') \<and>
        adjacent_values n (range_index n) cur (int idx) = Inr adj \<and>
        (adj \<noteq> [] \<longrightarrow> final ! idx \<in> set adj) \<and>
        (adj = [] \<and> dropna cur \<noteq> [] \<longrightarrow> final ! idx \<in> set (dropna cur)) \<and>
        (adj = [] \<and> dropna cur = [] \<longrightarrow> final ! idx = NaN))"
    using pass_value_at [of col n idx g] by blast
  have d: "fill_cell m index (FloatLabel t) (start, cnt, src) = Inl TypeError"
    "fill_cell m index (StrLabel t) (start, cnt, src) = Inl TypeError"
    by (simp_all add: fill_cell_def)
  show ?thesis
    using conjunct1 [OF a] conjunct2 [OF a] d b c by (intro conjI)
qed

text \<open>
  Two runs.  With the default index, the column \<open>5, NaN, NaN, 9\<close> and the row 2: the
  pass reaches the row on the column \<open>5, 5, NaN, 9\<close>, the candidates are \<open>5, 9\<close>, and
  the row ends with one of them.  With the labels \<open>0, 0, 1\<close> and the column
  \<open>1, NaN, 7\<close>: the candidate list for the label 0 is \<open>7\<close>, and 7 is written into both
  rows that carry the label.
\<close>

theorem fill_value_from_candidates_witness:
  "length [Num (5::int), NaN, NaN, Num 9] = 4 \<and> (2::nat) < 4 \<and>
   [Num (5::int), NaN, NaN, Num 9] ! 2 = NaN \<and>
   (\<exists>cur k g1 final k' g' adj.
      state_before 4 (range_index 4) [Num (5::int), NaN, NaN, Num 9] zero_rng 2 =
        Inr (cur, k, g1) \<and>
      clean_column 4 (range_index 4) [Num (5::int), NaN, NaN, Num 9] zero_rng =
        Inr (final, k', g') \<and>
      cur = [Num 5, Num 5, NaN, Num 9] \<and>
      adjacent_values 4 (range_index 4) cur 2 = Inr adj \<and> adj = [Num 5, Num 9] \<and>
      final ! 2 \<in> set adj) \<and>
   adjacent_values 3 [IntLabel 0, IntLabel 0, IntLabel 1] [Num (1::int), NaN, Num 7] 0 =
     Inr [Num 7] \<and>
   fill_cell 3 [IntLabel 0, IntLabel 0, IntLabel 1] (IntLabel 0)
     ([Num (1::int), NaN, Num 7], 0, zero_rng) =
     Inr ([Num 7, Num 7, Num 7], 1, zero_rng \<circ> Suc)"
proof -
  let ?col = "[Num (5::int), NaN, NaN, Num 9]"
  have h: "length ?col = 4 \<and> (2::nat) < 4 \<and> ?col ! 2 = NaN" by simp
  have before: "map_sum id fst (state_before 4 (range_index 4) ?col zero_rng 2) =
      Inr [Num 5, Num 5, NaN, Num 9]"
    unfolding range_index_4 by code_simp
  have search: "adjacent_values 4 (range_index 4) [Num (5::int), Num 5, NaN, Num 9] 2 =
      Inr [Num 5, Num 9]"
    unfolding range_index_4 by code_simp
  note d = fill_value_from_candidates [where col = ?col and n = 4 and idx = 2 and g = zero_rng,
      THEN conjunct2, THEN conjunct2, THEN conjunct2, THEN conjunct2, THEN conjunct2]
  from d h obtain cur k g1 final k' g' adj where
    sb: "state_before 4 (range_index 4) ?col zero_rng 2 = Inr (cur, k, g1)" and
    cc: "clean_column 4 (range_index 4) ?col zero_rng = Inr (final, k', g')" and
    adj0: "adjacent_values 4 (range_index 4) cur (int 2) = Inr adj" and
    mem: "adj \<noteq> [] \<longrightarrow> final ! 2 \<in> set adj"
    by blast
  have cur: "cur = [Num 5, Num 5, NaN, Num 9]" using before sb by simp
  have adj: "adjacent_values 4 (range_index 4) cur 2 = Inr adj" using adj0 by simp
  then have adj_eq: "adj = [Num 5, Num 9]" using search cur by simp
  then have "final ! 2 \<in> set adj" using mem by simp
  then have first: "\<exists>cur k g1 final k' g' adj.
      state_before 4 (range_index 4) ?col zero_rng 2 = Inr (cur, k, g1) \<and>
      clean_column 4 (range_index 4) ?col zero_rng = Inr (final, k', g') \<and>
      cur = [Num 5, Num 5, NaN, Num 9] \<and>
      adjacent_values 4 (range_index 4) cur 2 = Inr adj \<and> adj = [Num 5, Num 9] \<and>
      final ! 2 \<in> set adj"
    using sb cc cur adj adj_eq by blast
  let ?index = "[IntLabel 0, IntLabel 0, IntLabel 1]"
  let ?c = "[Num (1::int), NaN, Num 7]"
  have s2: "adjacent_values 3 ?index ?c 0 = Inr [Num 7]" by code_simp
  note e = fill_value_from_candidates [where m = 3 and index = ?index and start = ?c
      and i = 0 and cnt = 0 and src = zero_rng, THEN conjunct2, THEN conjunct1]
  from e s2 obtain v where
    v: "v \<in> set [Num (7::int)]" and
    w: "fill_cell 3 ?index (IntLabel 0) (?c, 0, zero_rng) =
      Inr (set_loc ?index ?c 0 v, 0 + 1, zero_rng \<circ> Suc)"
    by blast
  have "set_loc ?index ?c 0 v = [Num 7, Num 7, Num 7]"
    using v by (simp add: set_loc_def)
  then have second: "fill_cell 3 ?index (IntLabel 0) (?c, 0, zero_rng) =
      Inr ([Num 7, Num 7, Num 7], 1, zero_rng \<circ> Suc)"
    using w by simp
  show ?thesis using h first s2 second by simp
qed

section \<open>Shape of the dataframe\<close>

lemma try_body_order:
  assumes "try_body env input_file output_file sort_column g = Inr r"
  shows "\<exists>df0 df2 report t1 g'.
    read_csv env input_file ''latin1'' = Inr df0 \<and>
    impute (replace_missing df0) g = Inr (df2, report, t1, g') \<and>
    sort_step env sort_column df2 = Inr (written r)"
  using assms
  by (auto simp: try_body_def Let_def split: sum.splits prod.splits)

lemma impute_keeps_values:
  assumes "wf_df df" and "df_index df = range_index (df_len df)"
  shows "\<exists>df' report t1 g'.
      impute df g = Inr (df', report, t1, g') \<and>
      (\<forall>k<length (df_columns df). \<forall>i.
         notna (snd (df_columns df ! k) ! i) \<longrightarrow>
         snd (df_columns df' ! k) ! i = snd (df_columns df ! k) ! i)"
proof -
  obtain cols' report t1 g' where
    run: "impute df g = Inr (df\<lparr>df_columns := cols'\<rparr>, report, t1, g')" and
    each: "\<forall>k<length (df_columns df). \<exists>gk gk'.
        clean_column (df_len df) (df_index df) (snd (df_columns df ! k)) gk =
          Inr (snd (cols' ! k), snd (report ! k), gk')"
    using impute_result [OF assms, of g] by blast
  have col: "\<forall>i. notna (snd (df_columns df ! k) ! i) \<longrightarrow>
           snd (cols' ! k) ! i = snd (df_columns df ! k) ! i"
    if k: "k < length (df_columns df)" for k
  proof -
    let ?c = "snd (df_columns df ! k)"
    have lc: "length ?c = df_len df"
      using assms(1) k by (simp add: wf_df_def list_all_length)
    obtain gk gk' where
      ck: "clean_column (df_len df) (range_index (df_len df)) ?c gk =
        Inr (snd (cols' ! k), snd (report ! k), gk')"
      using each k assms(2) by auto
    from clean_column_keeps [OF lc, of gk] ck show ?thesis by auto
  qed
  show ?thesis
    using run col
    by (intro exI [of _ "df\<lparr>df_columns := cols'\<rparr>"] exI [of _ report] exI [of _ t1]
        exI [of _ g']) simp
qed

text \<open>
  C5.  Whenever the imputation of a well-formed dataframe returns, with whatever index,
  the result is well-formed and has the same index (so the same rows in the same order),
  the same number of rows and the same column names in the same order: only cells
  differ.  With the default index the imputation does return, and every cell that was
  not missing keeps its value at its row.  In a run of \<^verbatim>\<open>clean_csv_file\<close> the sort is
  applied to the result of the imputation.
\<close>

theorem impute_keeps_shape:
  "(wf_df df \<longrightarrow>
      (\<forall>df' report t1 g'. impute df g = Inr (df', report, t1, g') \<longrightarrow>
         wf_df df' \<and> df_index df' = df_index df \<and> df_len df' = df_len df \<and>
         map fst (df_columns df') = map fst (df_columns df))) \<and>
   (wf_df df \<and> df_index df = range_index (df_len df) \<longrightarrow>
      (\<exists>df' report t1 g'.
         impute df g = Inr (df', report, t1, g') \<and>
         (\<forall>k<length (df_columns df). \<forall>i.
            notna (snd (df_columns df ! k) ! i) \<longrightarrow>
            snd (df_columns df' ! k) ! i = snd (df_columns df ! k) ! i))) \<and>
   (\<forall>r. try_body env input_file output_file sort_column g_run = Inr r \<longrightarrow>
      (\<exists>df_read df_imputed report t1 g'.
        read_csv env input_file ''latin1'' = Inr df_read \<and>
        impute (replace_missing df_read) g_run = Inr (df_imputed, report, t1, g') \<and>
        sort_step env sort_column df_imputed = Inr (written r)))"
proof -
  have p1: "wf_df df \<longrightarrow>
      (\<forall>df' report t1 g'. impute df g = Inr (df', report, t1, g') \<longrightarrow>
         wf_df df' \<and> df_index df' = df_index df \<and> df_len df' = df_len df \<and>
         map fst (df_columns df') = map fst (df_columns df))"
  proof (intro impI allI)
    fix df' report t1 g'
    assume wf: "wf_df df" and run: "impute df g = Inr (df', report, t1, g')"
    from impute_shape [OF run wf]
    show "wf_df df' \<and> df_index df' = df_index df \<and> df_len df' = df_len df \<and>
         map fst (df_columns df') = map fst (df_columns df)"
      by (simp add: df_len_def)
  qed
  have p2: "wf_df df \<and> df_index df = range_index (df_len df) \<longrightarrow>
      (\<exists>df' report t1 g'.
         impute df g = Inr (df', report, t1, g') \<and>
         (\<forall>k<length (df_columns df). \<forall>i.
            notna (snd (df_columns df ! k) ! i) \<longrightarrow>
            snd (df_columns df' ! k) ! i = snd (df_columns df ! k) ! i))"
    using impute_keeps_values [of df g] by simp
  have p3: "\<forall>r. try_body env input_file output_file sort_column g_run = Inr r \<longrightarrow>
      (\<exists>df_read df_imputed report t1 g'.
        read_csv env input_file ''latin1'' = Inr df_read \<and>
        impute (replace_missing df_read) g_run = Inr (df_imputed, report, t1, g') \<and>
        sort_step env sort_column df_imputed = Inr (written r))"
    using try_body_order [of env input_file output_file sort_column g_run] by blast
  show ?thesis using p1 p2 p3 by (intro conjI)
qed

text \<open>
  Two runs: the default index, where the value 40 stays in the last row of \<open>score\<close>; and
  the labels \<open>0, 0, 1\<close>, where the imputation returns and the index, the number of rows
  and the column names are the same, while the cell of the first row, which was not
  missing, is overwritten.
\<close>

theorem impute_keeps_shape_witness:
  "wf_df (\<lparr>df_index = [IntLabel 0, IntLabel 1, IntLabel 2, IntLabel 3], df_columns =
       [(''id'', [Num 1, Num 2, Num 3, Num 4]), (''score'', [Num 10, NaN, NaN, Num 40])]\<rparr>
       :: int dataframe) \<and>
   [IntLabel 0, IntLabel 1, IntLabel 2, IntLabel 3] = range_index 4 \<and>
   (\<exists>df' report t1 g'.
      impute (\<lparr>df_index = [IntLabel 0, IntLabel 1, IntLabel 2, IntLabel 3], df_columns =
       [(''id'', [Num 1, Num 2, Num 3, Num 4]), (''score'', [Num 10, NaN, NaN, Num 40])]\<rparr>
       :: int dataframe) zero_rng = Inr (df', report, t1, g') \<and>
      df_len df' = 4 \<and> map fst (df_columns df') = [''id'', ''score''] \<and>
      snd (df_columns df' ! 1) ! 3 = Num 40) \<and>
   wf_df (\<lparr>df_index = [IntLabel 0, IntLabel 0, IntLabel 1],
           df_columns = [(''a'', [Num 1, NaN, Num 7])]\<rparr> :: int dataframe) \<and>
   (\<exists>df' report t1 g'.
      impute (\<lparr>df_index = [IntLabel 0, IntLabel 0, IntLabel 1],
           df_columns = [(''a'', [Num 1, NaN, Num 7])]\<rparr> :: int dataframe) zero_rng =
        Inr (df', report, t1, g') \<and>
      df_columns df' = [(''a'', [Num 7, Num 7, Num 7])] \<and>
      df_index df' = [IntLabel 0, IntLabel 0, IntLabel 1] \<and> df_len df' = 3 \<and> wf_df df')"
proof -
  let ?df = "\<lparr>df_index = [IntLabel 0, IntLabel 1, IntLabel 2, IntLabel 3], df_columns =
       [(''id'', [Num 1, Num 2, Num 3, Num 4]), (''score'', [Num 10, NaN, NaN, Num 40])]\<rparr>
       :: int dataframe"
  let ?dg = "\<lparr>df_index = [IntLabel 0, IntLabel 0, IntLabel 1],
           df_columns = [(''a'', [Num 1, NaN, Num 7])]\<rparr> :: int dataframe"
  have wf: "wf_df ?df" by (simp add: wf_df_def df_len_def is_int_label_def)
  have l4: "df_len ?df = 4" by (simp add: df_len_def)
  have ri: "df_index ?df = range_index (df_len ?df)" unfolding l4 by (simp add: range_index_4)
  note a = impute_keeps_shape [where df = ?df and g = zero_rng, THEN conjunct1]
  note b = impute_keeps_shape [where df = ?df and g = zero_rng, THEN conjunct2, THEN conjunct1]
  from b wf ri obtain df' report t1 g' where
    run: "impute ?df zero_rng = Inr (df', report, t1, g')" and
    keep: "\<forall>k<length (df_columns ?df). \<forall>i.
         notna (snd (df_columns ?df ! k) ! i) \<longrightarrow>
         snd (df_columns df' ! k) ! i = snd (df_columns ?df ! k) ! i"
    by blast
  have shape: "df_len df' = df_len ?df \<and> map fst (df_columns df') = map fst (df_columns ?df)"
    using a wf run by blast
  have "snd (df_columns df' ! 1) ! 3 = Num 40"
    using keep [rule_format, of 1 3] by (simp add: notna_def)
  then have first: "\<exists>df' report t1 g'.
      impute ?df zero_rng = Inr (df', report, t1, g') \<and>
      df_len df' = 4 \<and> map fst (df_columns df') = [''id'', ''score''] \<and>
      snd (df_columns df' ! 1) ! 3 = Num 40"
    using run shape l4 by auto
  have wg: "wf_df ?dg" by (simp add: wf_df_def df_len_def is_int_label_def)
  have rg: "map_sum id fst (impute ?dg zero_rng) =
      Inr \<lparr>df_index = [IntLabel 0, IntLabel 0, IntLabel 1],
           df_columns = [(''a'', [Num 7, Num 7, Num 7])]\<rparr>"
    by code_simp
  then obtain dg' rep tt gg where
    rung: "impute ?dg zero_rng = Inr (dg', rep, tt, gg)" and
    cols: "df_columns dg' = [(''a'', [Num 7, Num 7, Num 7])]"
    by (cases "impute ?dg zero_rng") auto
  note c = impute_keeps_shape [where df = ?dg and g = zero_rng, THEN conjunct1]
  have "wf_df dg' \<and> df_index dg' = df_index ?dg \<and> df_len dg' = df_len ?dg"
    using c wg rung by blast
  then have second: "\<exists>df' report t1 g'.
      impute ?dg zero_rng = Inr (df', report, t1, g') \<and>
      df_columns df' = [(''a'', [Num 7, Num 7, Num 7])] \<and>
      df_index df' = [IntLabel 0, IntLabel 0, IntLabel 1] \<and> df_len df' = 3 \<and> wf_df df'"
    using rung cols by (auto simp: df_len_def)
  show ?thesis using wf first wg second by (simp add: range_index_4)
qed

section \<open>The result of \<^verbatim>\<open>clean_csv_file\<close>\<close>

lemma clean_columns_empty:
  "list_all (\<lambda>c. snd c = []) cols \<Longrightarrow>
   clean_columns n index cols t0 g = Inr (cols, map (\<lambda>c. (fst c, 0)) cols, t0, g)"
proof (induction cols arbitrary: t0 g)
  case Nil
  then show ?case by simp
next
  case (Cons c cols)
  then have e: "snd c = []" and rest: "list_all (\<lambda>c. snd c = []) cols"
    by simp_all
  have c: "(fst c, []) = c" using e by (cases c) simp
  show ?case
    using Cons.IH [OF rest] e c by (simp add: clean_column_def null_indices_def)
qed

lemma zero_rows_columns:
  assumes "wf_df df" and "df_len df = 0"
  shows "list_all (\<lambda>c. snd c = []) (df_columns df)"
  using assms by (simp add: wf_df_def)

lemma replace_missing_zero_rows:
  assumes "wf_df df" and "df_len df = 0"
  shows "replace_missing df = df"
proof -
  have "(fst c, map replace_cell (snd c)) = c" if "c \<in> set (df_columns df)" for c
    using zero_rows_columns [OF assms] that by (cases c) (auto simp: list_all_iff)
  then have "map (\<lambda>c. (fst c, map replace_cell (snd c))) (df_columns df) = df_columns df"
    by (simp add: map_idI)
  then show ?thesis by (simp add: replace_missing_def)
qed

lemma impute_zero_rows:
  assumes "wf_df df" and "df_len df = 0"
  shows "impute df g = Inr (df, map (\<lambda>c. (fst c, 0)) (df_columns df), 0, g)"
  using clean_columns_empty [OF zero_rows_columns [OF assms], of 0 "df_index df" 0 g] assms(2)
  by (simp add: impute_def)

lemma null_count_after_zero_rows:
  assumes "wf_df df" and "df_len df = 0"
  shows "null_count_after df = 0"
  using zero_rows_columns [OF assms]
  by (simp add: null_count_after_def count_cells_def list_all_iff)


lemma wf_replace_missing: "wf_df df \<Longrightarrow> wf_df (replace_missing df)"
  by (simp add: wf_df_def replace_missing_def comp_def list_all_iff df_len_def)

lemma names_replace_missing: "map fst (df_columns (replace_missing df)) = map fst (df_columns df)"
  by (simp add: replace_missing_def comp_def)

lemma len_replace_missing: "df_len (replace_missing df) = df_len df"
  by (simp add: replace_missing_def df_len_def)


text \<open>
  C8 (amended).  A load failure makes \<^verbatim>\<open>clean_csv_file\<close> return the triple of zeros, and
  a successful run on a well-formed file with zero rows (called as \<^verbatim>\<open>main\<close> calls it,
  without a sort column, on a file without the two arrival-date columns) returns a
  triple whose three components are zero as well.
\<close>

theorem load_failure_same_as_empty_file:
  assumes "read_csv env1 input_file ''latin1'' = Inl e"
    and "read_csv env2 input_file ''latin1'' = Inr df"
    and "wf_df df" and "df_len df = 0"
    and "''arrival_date_year'' \<notin> set (map fst (df_columns df))"
    and "to_csv env2 df output_file ''mac-roman'' = Inr ()"
  shows "clean_csv_file env1 input_file output_file sort_column g1 = (0, 0, 0) \<and>
    clean_csv_file env2 input_file output_file None g2 = (0, 0, 0)"
proof -
  have a: "clean_csv_file env1 input_file output_file sort_column g1 = (0, 0, 0)"
    using assms(1) by (simp add: clean_csv_file_def try_body_def)
  have r: "replace_missing df = df"
    using assms(3,4) by (rule replace_missing_zero_rows)
  have i: "impute df g2 = Inr (df, map (\<lambda>c. (fst c, 0)) (df_columns df), 0, g2)"
    using assms(3,4) by (rule impute_zero_rows)
  have s: "sort_step env2 None df = Inr df"
    using assms(5) by (simp add: sort_step_def)
  have "try_body env2 input_file output_file None g2 =
      Inr \<lparr>returned = (0, 0, 0), printed_null_count_before = null_count_before df,
           written = df\<rparr>"
    using assms(2,4,6) r i s null_count_after_zero_rows [OF assms(3,4)]
    by (simp add: try_body_def)
  then have b: "clean_csv_file env2 input_file output_file None g2 = (0, 0, 0)"
    by (simp add: clean_csv_file_def)
  show ?thesis using a b by simp
qed

theorem load_failure_same_as_empty_file_witness:
  "clean_csv_file
     (test_env (Inl (LibraryError ''FileNotFoundError'')) (Inr False) (Inr ()) :: int env)
     ''in.csv'' ''out.csv'' None zero_rng = (0, 0, 0) \<and>
   clean_csv_file
     (test_env (Inr \<lparr>df_index = [], df_columns = [(''a'', [])]\<rparr>) (Inr False) (Inr ()) :: int env)
     ''in.csv'' ''out.csv'' None zero_rng = (0, 0, 0)"
  by (rule load_failure_same_as_empty_file
      [where e = "LibraryError ''FileNotFoundError''"
        and df = "\<lparr>df_index = [], df_columns = [(''a'', [])]\<rparr>"])
    (simp_all add: test_env_simps wf_df_def df_len_def)

theorem load_failure_indistinguishable_counterexample:
  "isl (try_body
     (test_env (Inl (LibraryError ''FileNotFoundError'')) (Inr False) (Inr ()) :: int env)
     ''in.csv'' ''out.csv'' None zero_rng) \<and>
   try_body
     (test_env (Inr \<lparr>df_index = [], df_columns = [(''a'', [])]\<rparr>) (Inr False) (Inr ()) :: int env)
     ''in.csv'' ''out.csv'' None zero_rng =
     Inr \<lparr>returned = (0, 0, 0), printed_null_count_before = 0,
          written = \<lparr>df_index = [], df_columns = [(''a'', [])]\<rparr>\<rparr> \<and>
   clean_csv_file
     (test_env (Inl (LibraryError ''FileNotFoundError'')) (Inr False) (Inr ()) :: int env)
     ''in.csv'' ''out.csv'' None zero_rng =
   clean_csv_file
     (test_env (Inr \<lparr>df_index = [], df_columns = [(''a'', [])]\<rparr>) (Inr False) (Inr ()) :: int env)
     ''in.csv'' ''out.csv'' None zero_rng"
  by (simp add: clean_csv_file_def try_body_def test_env_simps replace_missing_def
      impute_def clean_column_def null_indices_def sort_step_def null_count_after_def
      null_count_before_def count_cells_def df_len_def)

section \<open>Failures inside \<^verbatim>\<open>clean_csv_file\<close>\<close>









end
